theory Spec2Isabelle
  imports Main "HOL-Library.Sublist"
begin

section \<open>Strings and the Python built-ins the detector relies on\<close>

text \<open>
  A Python \<open>str\<close> is a sequence of Unicode code points, and \<open>len\<close> counts code points.
  A string is therefore a list of code points, the integers \<open>ord\<close> gives; \<open>ustr\<close> embeds
  an ASCII literal.
\<close>

type_synonym ustring = "int list"

definition ustr :: "string \<Rightarrow> ustring" where
  "ustr s = map of_char s"

text \<open>
  Three built-ins consult the Unicode character database, which is not part of the
  repository: \<open>str.lower\<close>, the class \<open>\d\<close> of the \<open>re\<close> module outside ASCII, and the
  white space \<open>str.strip\<close> removes. They are parameters of the model; every function
  that calls one of them takes the record \<open>B\<close>.
\<close>

record builtins =
  str_lower :: "ustring \<Rightarrow> ustring"
  unicode_decimal :: "int \<Rightarrow> bool"
  str_isspace :: "int \<Rightarrow> bool"

text \<open>On ASCII input the built-ins are these.\<close>

definition ascii_lower_char :: "int \<Rightarrow> int" where
  "ascii_lower_char c = (if 65 \<le> c \<and> c \<le> 90 then c + 32 else c)"

definition ascii_isspace :: "int \<Rightarrow> bool" where
  "ascii_isspace c = ((9 \<le> c \<and> c \<le> 13) \<or> (28 \<le> c \<and> c \<le> 32))"

definition ascii_builtins :: builtins where
  "ascii_builtins =
     \<lparr> str_lower = map ascii_lower_char,
       unicode_decimal = (\<lambda>c. False),
       str_isspace = ascii_isspace \<rparr>"

text \<open>\<open>\d\<close>: the digits \<open>0\<close> to \<open>9\<close> in ASCII, the Unicode decimal digits beyond.\<close>

definition re_digit :: "builtins \<Rightarrow> int \<Rightarrow> bool" where
  "re_digit B c = (if c < 128 then 48 \<le> c \<and> c \<le> 57 else unicode_decimal B c)"

text \<open>\<open>[a-z]\<close> and the consonant class \<open>[bcdfghjklmnpqrstvwxyz]\<close>.\<close>

definition re_az :: "int \<Rightarrow> bool" where
  "re_az c = (97 \<le> c \<and> c \<le> 122)"

definition re_consonant :: "int \<Rightarrow> bool" where
  "re_consonant c = List.member (ustr ''bcdfghjklmnpqrstvwxyz'') c"

text \<open>\<open>s.startswith(p)\<close>, \<open>s.endswith(p)\<close> and \<open>p in s\<close>.\<close>

definition startswith :: "ustring \<Rightarrow> ustring \<Rightarrow> bool" where
  "startswith s p = prefix p s"

definition endswith :: "ustring \<Rightarrow> ustring \<Rightarrow> bool" where
  "endswith s p = suffix p s"

definition contains :: "ustring \<Rightarrow> ustring \<Rightarrow> bool" where
  "contains s p = sublist p s"

text \<open>\<open>s.strip()\<close>: white space removed at both ends.\<close>

definition strip :: "builtins \<Rightarrow> ustring \<Rightarrow> ustring" where
  "strip B s = rev (dropWhile (str_isspace B) (rev (dropWhile (str_isspace B) s)))"

text \<open>
  \<open>re.split(r'[.\-]', s)\<close> and \<open>s.split('.')\<close>: the pieces between separators, empty
  pieces kept, so the result is never empty.
\<close>

fun split_on :: "(int \<Rightarrow> bool) \<Rightarrow> ustring \<Rightarrow> ustring list" where
  "split_on sep [] = [[]]"
| "split_on sep (c # cs) =
     (if sep c then [] # split_on sep cs
      else (case split_on sep cs of
              [] \<Rightarrow> [[c]]
            | w # ws \<Rightarrow> (c # w) # ws))"

definition is_separator :: "int \<Rightarrow> bool" where
  "is_separator c = (c = 46 \<or> c = 45)"

definition re_split :: "ustring \<Rightarrow> ustring list" where
  "re_split s = split_on is_separator s"

definition split_dot :: "ustring \<Rightarrow> ustring list" where
  "split_dot s = split_on (\<lambda>c. c = 46) s"

text \<open>
  \<open>re.search\<close> tries the pattern at every position, the end of the string included;
  \<open>m\<close> says whether the pattern matches at the start of what is left.
\<close>

fun re_search :: "(ustring \<Rightarrow> bool) \<Rightarrow> ustring \<Rightarrow> bool" where
  "re_search m [] = m []"
| "re_search m (c # cs) = (m (c # cs) \<or> re_search m cs)"

text \<open>
  The anchored literal patterns. \<open>^\<close> without the MULTILINE flag matches at the start
  of the string only; \<open>$\<close> matches at the end of the string and also just before a
  line feed that ends the string.
\<close>

definition search_literal :: "ustring \<Rightarrow> ustring \<Rightarrow> bool" where
  "search_literal p s = contains s p"

definition search_from_start :: "ustring \<Rightarrow> ustring \<Rightarrow> bool" where
  "search_from_start p s = startswith s p"

definition search_to_end :: "ustring \<Rightarrow> ustring \<Rightarrow> bool" where
  "search_to_end p s = (endswith s p \<or> endswith s (p @ [10]))"

definition search_whole :: "ustring \<Rightarrow> ustring \<Rightarrow> bool" where
  "search_whole p s = (s = p \<or> s = p @ [10])"

text \<open>
  \<open>len(re.findall(p, s))\<close> for a pattern that cannot match the empty string: the
  matches are taken from left to right and do not overlap. \<open>m\<close> gives the length of
  the match at the start of what is left, if there is one.
\<close>

function findall_count :: "(ustring \<Rightarrow> nat option) \<Rightarrow> ustring \<Rightarrow> nat" where
  "findall_count m [] = 0"
| "findall_count m (c # cs) =
     (case m (c # cs) of
        None \<Rightarrow> findall_count m cs
      | Some n \<Rightarrow> 1 + findall_count m (drop (n - 1) cs))"
  by pat_completeness auto
termination
  by (relation "measure (\<lambda>(m, s). length s)") auto

section \<open>Configuration\<close>

definition SCORE_THRESHOLD :: int where
  "SCORE_THRESHOLD = 70"

definition MANUAL_CHECK_DOMAINS :: "ustring list" where
  "MANUAL_CHECK_DOMAINS = []"

definition WHITELISTED_DOMAINS :: "ustring list" where
  "WHITELISTED_DOMAINS = map ustr
     [''econt.com'', ''econt.bg'', ''speedy.bg'', ''intime.bg'', ''interlogistica.bg'',
      ''olx.bg'', ''bgpost.bg'', ''bulgariapost.bg'', ''samedaybg.com'', ''boxnow.bg'',
      ''cityexpress.bg'', ''expressone.bg'', ''sameday.bg'', ''evropat.bg'', ''dhl.bg'',
      ''easypay.bg'', ''epay.bg'', ''borica.bg'', ''fastpay.bg'']"

definition BRAND_KEYWORDS :: "ustring list" where
  "BRAND_KEYWORDS = map ustr
     [''econt'', ''speedy'', ''bulgariapost'', ''bgpost'', ''bg-post'', ''olx'', ''dhl'',
      ''sameday'', ''samedaybg'', ''evropat'', ''boxnow'', ''boxnowbg'', ''cityexpress'',
      ''cityexpressbg'', ''expressone'', ''expressonebg'', ''intime'', ''interlogistica'',
      ''easypay'', ''epay'', ''borica'', ''fastpay'']"

definition TRANSACTION_KEYWORDS :: "ustring list" where
  "TRANSACTION_KEYWORDS = map ustr
     [''tracking'', ''delivery'', ''shipment'', ''parcel'', ''payment'', ''secure-pay'',
      ''pay-now'', ''invoice'', ''confirm'', ''verify'', ''account'', ''login'', ''update'',
      ''suspended'', ''tax'', ''fee'', ''customer-center'', ''klient'', ''pratka'',
      ''dostavka'', ''usluga'']"

definition GEO_INDICATORS :: "ustring list" where
  "GEO_INDICATORS = map ustr [''.bg'', ''bulgaria'', ''bg-'', ''-bg'']"

definition SUSPICIOUS_TLDS :: "ustring list" where
  "SUSPICIOUS_TLDS = map ustr
     [''.cfd'', ''.tk'', ''.ml'', ''.ga'', ''.cf'', ''.gq'', ''.top'', ''.xyz'', ''.club'',
      ''.online'', ''.site'', ''.space'', ''.click'', ''.link'', ''.live'', ''.icu'',
      ''.buzz'', ''.cam'', ''.rest'', ''.store'', ''.tech'', ''.website'', ''.world'',
      ''.pw'', ''.cc'', ''.sbs'']"

definition FREE_HOSTING_SUFFIXES :: "ustring list" where
  "FREE_HOSTING_SUFFIXES = map ustr
     [''.web.app'', ''.firebaseapp.com'', ''.herokuapp.com'', ''.pages.dev'',
      ''.netlify.app'', ''.vercel.app'', ''.onrender.com'', ''.render.com'', ''.fly.dev'',
      ''.surge.sh'', ''.gitlab.io'', ''.github.io'', ''.repl.co'', ''.replit.dev'',
      ''.replit.app'', ''.glitch.me'', ''.cyclic.app'', ''.railway.app'', ''.deta.dev'',
      ''.azurestaticapps.net'', ''.amplifyapp.com'', ''.cloudflare.com'']"

definition TARGET_SUFFIXES :: "ustring list" where
  "TARGET_SUFFIXES = FREE_HOSTING_SUFFIXES @ SUSPICIOUS_TLDS"

definition INFRASTRUCTURE_PATTERNS :: "ustring list" where
  "INFRASTRUCTURE_PATTERNS = map ustr
     [''.postgres.render.com'', ''.redis.render.com'', ''.internal.render.com'',
      ''replica-'', ''.rds.amazonaws.com'', ''.elb.amazonaws.com'',
      ''.elasticache.amazonaws.com'', ''.drive.amazonaws.com'', ''kms.amazonaws.com'',
      ''s3.amazonaws.com'', ''s3-deprecated'', ''content-eu.drive'', ''content-jp.drive'',
      ''.database.windows.net'', ''.redis.cache.windows.net'', ''.workers.dev'',
      ''--deploy-preview-'', ''preview.vercel.app'', ''bgptools'']"

section \<open>Whitelist and brand matching\<close>

text \<open>The lower-cased domain without a leading \<open>www.\<close>, as every detector forms it.\<close>

definition strip_www :: "ustring \<Rightarrow> ustring" where
  "strip_www domain_lower =
     (if startswith domain_lower (ustr ''www.'') then drop 4 domain_lower else domain_lower)"

fun whitelist_loop :: "ustring \<Rightarrow> ustring list \<Rightarrow> bool" where
  "whitelist_loop domain_lower [] = False"
| "whitelist_loop domain_lower (whitelisted # rest) =
     (if domain_lower = whitelisted then True
      else if endswith domain_lower (ustr ''.'' @ whitelisted) then True
      else whitelist_loop domain_lower rest)"

definition is_whitelisted :: "builtins \<Rightarrow> ustring \<Rightarrow> bool" where
  "is_whitelisted B domain =
     (let domain_lower = str_lower B domain;
          domain_lower = strip_www domain_lower
      in whitelist_loop domain_lower WHITELISTED_DOMAINS)"

text \<open>
  The nine patterns built for one brand, in the order of the source. The brand is
  pasted into the pattern unescaped; the registered brands consist of the letters
  \<open>a\<close> to \<open>z\<close> and the hyphen, which stand for themselves in a pattern.
\<close>

definition brand_patterns :: "ustring \<Rightarrow> (ustring \<Rightarrow> bool) list" where
  "brand_patterns brand =
     [search_from_start (brand @ ustr ''.''),
      search_from_start (brand @ ustr ''-''),
      search_whole brand,
      search_literal (ustr ''.'' @ brand @ ustr ''.''),
      search_literal (ustr ''.'' @ brand @ ustr ''-''),
      search_to_end (ustr ''.'' @ brand),
      search_literal (ustr ''-'' @ brand @ ustr ''.''),
      search_literal (ustr ''-'' @ brand @ ustr ''-''),
      search_to_end (ustr ''-'' @ brand)]"

text \<open>The inner loop: the first pattern that matches appends the brand and breaks.\<close>

fun pattern_loop :: "(ustring \<Rightarrow> bool) list \<Rightarrow> ustring \<Rightarrow> bool" where
  "pattern_loop [] check_domain = False"
| "pattern_loop (pattern # rest) check_domain =
     (if pattern check_domain then True else pattern_loop rest check_domain)"

fun brand_loop :: "ustring list \<Rightarrow> ustring \<Rightarrow> ustring list \<Rightarrow> ustring list" where
  "brand_loop [] check_domain matched_brands = matched_brands"
| "brand_loop (brand # rest) check_domain matched_brands =
     brand_loop rest check_domain
       (if pattern_loop (brand_patterns brand) check_domain
        then matched_brands @ [brand] else matched_brands)"

definition contains_brand_impersonation :: "builtins \<Rightarrow> ustring \<Rightarrow> bool \<times> ustring list" where
  "contains_brand_impersonation B domain =
     (let domain_lower = str_lower B domain;
          check_domain = strip_www domain_lower;
          matched_brands = brand_loop BRAND_KEYWORDS check_domain []
      in (length matched_brands > 0, matched_brands))"

section \<open>Homoglyph detection\<close>

text \<open>
  \<open>HOMOGLYPH_MAP\<close> in the order of the dictionary: a Latin letter and the code points
  that look like it.
\<close>

definition HOMOGLYPH_MAP :: "(int \<times> int list) list" where
  "HOMOGLYPH_MAP =
     [(97, [1072, 7841, 261, 940, 945]),
      (99, [1089, 1010, 263, 267]),
      (101, [1077, 279, 281, 1105, 941, 949]),
      (105, [1110, 305, 237, 236, 239, 953]),
      (111, [1086, 959, 7885, 243, 242, 48]),
      (112, [1088, 961, 254]),
      (115, [1109, 347, 351]),
      (116, [1090, 964]),
      (117, [965, 250, 249]),
      (120, [1093, 967]),
      (121, [1091, 1199, 253])]"

fun homoglyph_lookup :: "(int \<times> int list) list \<Rightarrow> int \<Rightarrow> int option" where
  "homoglyph_lookup [] char = None"
| "homoglyph_lookup ((latin, homoglyphs) # rest) char =
     (if List.member homoglyphs char then Some latin else homoglyph_lookup rest char)"

definition normalize_char :: "int \<Rightarrow> int" where
  "normalize_char char =
     (case homoglyph_lookup HOMOGLYPH_MAP char of
        Some latin \<Rightarrow> latin
      | None \<Rightarrow> if char = 48 then 111 else char)"

definition normalize_homoglyphs :: "ustring \<Rightarrow> ustring" where
  "normalize_homoglyphs text = map normalize_char text"

definition has_non_ascii :: "ustring \<Rightarrow> bool" where
  "has_non_ascii part = (\<not> list_all (\<lambda>c. c < 128) part)"

definition replace_zero :: "ustring \<Rightarrow> ustring" where
  "replace_zero part = map (\<lambda>c. if c = 48 then 111 else c) part"

text \<open>
  The loop over the parts for one brand: \<open>None\<close> when it runs to its end, \<open>Some part\<close>
  when it appends \<open>part\<close> and breaks.
\<close>

fun homoglyph_parts :: "ustring \<Rightarrow> ustring list \<Rightarrow> ustring option" where
  "homoglyph_parts brand [] = None"
| "homoglyph_parts brand (part # rest) =
     (if length part < 3 \<or> \<bar>int (length part) - int (length brand)\<bar> > 2
      then homoglyph_parts brand rest
      else if has_non_ascii part \<and>
              (let normalized = normalize_homoglyphs part
               in normalized = brand \<or> (length normalized \<ge> 4 \<and> contains brand normalized))
      then Some part
      else if List.member part 48 \<and> replace_zero part = brand
      then Some part
      else homoglyph_parts brand rest)"

fun homoglyph_brands :: "ustring \<Rightarrow> ustring list \<Rightarrow> ustring list \<Rightarrow> ustring list" where
  "homoglyph_brands domain_lower [] homoglyphs_found = homoglyphs_found"
| "homoglyph_brands domain_lower (brand # rest) homoglyphs_found =
     (let parts = re_split domain_lower
      in homoglyph_brands domain_lower rest
           (case homoglyph_parts brand parts of
              None \<Rightarrow> homoglyphs_found
            | Some part \<Rightarrow> homoglyphs_found @ [part]))"

definition detect_homoglyphs :: "builtins \<Rightarrow> ustring \<Rightarrow> ustring list \<Rightarrow> bool \<times> ustring list" where
  "detect_homoglyphs B domain brands =
     (let domain_lower = str_lower B domain;
          domain_lower = strip_www domain_lower;
          homoglyphs_found = homoglyph_brands domain_lower brands []
      in (length homoglyphs_found > 0, homoglyphs_found))"

section \<open>Typosquatting detection\<close>

text \<open>
  The inner loop of \<open>levenshtein_distance\<close> appends one cell to \<open>current_row\<close> for
  every character of \<open>s2\<close>; \<open>j\<close> is the index \<open>enumerate\<close> supplies.
\<close>

fun levenshtein_inner :: "int \<Rightarrow> int list \<Rightarrow> ustring \<Rightarrow> nat \<Rightarrow> int list \<Rightarrow> int list" where
  "levenshtein_inner c1 previous_row [] j current_row = current_row"
| "levenshtein_inner c1 previous_row (c2 # rest) j current_row =
     (let insertions = previous_row ! (j + 1) + 1;
          deletions = current_row ! j + 1;
          substitutions = previous_row ! j + (if c1 \<noteq> c2 then 1 else 0)
      in levenshtein_inner c1 previous_row rest (j + 1)
           (current_row @ [min insertions (min deletions substitutions)]))"

fun levenshtein_outer :: "ustring \<Rightarrow> ustring \<Rightarrow> nat \<Rightarrow> int list \<Rightarrow> int list" where
  "levenshtein_outer [] s2 i previous_row = previous_row"
| "levenshtein_outer (c1 # rest) s2 i previous_row =
     levenshtein_outer rest s2 (i + 1)
       (levenshtein_inner c1 previous_row s2 0 [int i + 1])"

function levenshtein_distance :: "ustring \<Rightarrow> ustring \<Rightarrow> int" where
  "levenshtein_distance s1 s2 =
     (if length s1 < length s2 then levenshtein_distance s2 s1
      else if length s2 = 0 then int (length s1)
      else last (levenshtein_outer s1 s2 0 (map int [0..<length s2 + 1])))"
  by pat_completeness auto
termination
  by (relation "measure (\<lambda>(s1, s2). if length s1 < length s2 then 1 else 0)") auto

declare levenshtein_distance.simps [simp del]

datatype typo_type = missing_char | extra_char | swapped_chars | substitution

record typo_match =
  t_brand :: ustring
  t_typo :: ustring
  t_distance :: int
  t_type :: typo_type

definition classify_typo_type :: "ustring \<Rightarrow> ustring \<Rightarrow> typo_type" where
  "classify_typo_type original typo =
     (if length typo < length original then missing_char
      else if length typo > length original then extra_char
      else
        (let differences = length (filter (\<lambda>(a, b). a \<noteq> b) (zip original typo))
         in if differences = 2 \<and>
               list_ex (\<lambda>i. original ! i = typo ! (i + 1) \<and> original ! (i + 1) = typo ! i)
                 [0..<length original - 1]
            then swapped_chars
            else substitution))"

fun typo_parts :: "ustring \<Rightarrow> ustring list \<Rightarrow> typo_match list \<Rightarrow> typo_match list" where
  "typo_parts brand [] detected_typos = detected_typos"
| "typo_parts brand (part # rest) detected_typos =
     (if length part < 3 then typo_parts brand rest detected_typos
      else
        (let distance = levenshtein_distance part brand;
             length_diff = \<bar>int (length part) - int (length brand)\<bar>
         in if 0 < distance \<and> distance \<le> 2 \<and> length_diff \<le> 2
            then (if part \<noteq> brand
                  then typo_parts brand rest
                         (detected_typos @
                            [\<lparr> t_brand = brand, t_typo = part, t_distance = distance,
                               t_type = classify_typo_type brand part \<rparr>])
                  else typo_parts brand rest detected_typos)
            else typo_parts brand rest detected_typos))"

fun typo_brands :: "ustring list \<Rightarrow> ustring list \<Rightarrow> typo_match list \<Rightarrow> typo_match list" where
  "typo_brands [] parts detected_typos = detected_typos"
| "typo_brands (brand # rest) parts detected_typos =
     (if length brand < 4 then typo_brands rest parts detected_typos
      else typo_brands rest parts (typo_parts brand parts detected_typos))"

definition detect_typosquatting :: "builtins \<Rightarrow> ustring \<Rightarrow> ustring list \<Rightarrow> bool \<times> typo_match list" where
  "detect_typosquatting B domain brands =
     (let domain_lower = str_lower B domain;
          domain_lower = strip_www domain_lower;
          parts = re_split domain_lower;
          detected_typos = typo_brands brands parts []
      in (length detected_typos > 0, detected_typos))"

section \<open>Scoring\<close>

text \<open>
  The \<open>details\<close> dictionary. The keys \<open>bg_tld_abuse\<close>, \<open>direct_impersonation\<close> and
  \<open>non_bg_context_penalty\<close> are only ever stored with the value \<open>True\<close> and read with
  the default \<open>False\<close>: the field is \<open>False\<close> when the key is absent.
\<close>

record details =
  brand_keywords :: "ustring list"
  transaction_keywords :: "ustring list"
  geo_indicators :: "ustring list"
  suspicious_tld :: "ustring option"
  free_hosting :: "ustring option"
  multiple_hyphens :: bool
  numeric_suffix :: bool
  subdomain_stacking :: bool
  high_entropy :: bool
  homoglyphs_detected :: bool
  homoglyphs_used :: "ustring list"
  typosquatting_detected :: bool
  typosquatting_details :: "typo_match list"
  bg_tld_abuse :: bool
  direct_impersonation :: bool
  non_bg_context_penalty :: bool

definition initial_details :: details where
  "initial_details =
     \<lparr> brand_keywords = [], transaction_keywords = [], geo_indicators = [],
       suspicious_tld = None, free_hosting = None, multiple_hyphens = False,
       numeric_suffix = False, subdomain_stacking = False, high_entropy = False,
       homoglyphs_detected = False, homoglyphs_used = [],
       typosquatting_detected = False, typosquatting_details = [],
       bg_tld_abuse = False, direct_impersonation = False,
       non_bg_context_penalty = False \<rparr>"

text \<open>The local variables of \<open>calculate_score\<close> that the steps read and write.\<close>

record locals =
  score :: int
  details :: details
  has_brand :: bool
  has_homoglyphs :: bool
  has_typos :: bool
  has_bg_context :: bool
  apply_penalty :: bool

definition initial_locals :: locals where
  "initial_locals =
     \<lparr> score = 0, details = initial_details, has_brand = False, has_homoglyphs = False,
       has_typos = False, has_bg_context = False, apply_penalty = False \<rparr>"

text \<open>1 to 3: brand keywords (+40), homoglyphs (+30), typosquatting (+25).\<close>

definition step_brand :: "builtins \<Rightarrow> ustring \<Rightarrow> locals \<Rightarrow> locals" where
  "step_brand B domain st =
     (case contains_brand_impersonation B domain of
        (hb, matched_brands) \<Rightarrow>
          if hb
          then st\<lparr> has_brand := True, score := score st + 40,
                   details := (details st)\<lparr> brand_keywords := matched_brands \<rparr> \<rparr>
          else st\<lparr> has_brand := False \<rparr>)"

definition step_homoglyphs :: "builtins \<Rightarrow> ustring \<Rightarrow> locals \<Rightarrow> locals" where
  "step_homoglyphs B domain st =
     (case detect_homoglyphs B domain BRAND_KEYWORDS of
        (hh, homoglyphs_list) \<Rightarrow>
          if hh
          then st\<lparr> has_homoglyphs := True, score := score st + 30,
                   details := (details st)\<lparr> homoglyphs_detected := True,
                                              homoglyphs_used := homoglyphs_list \<rparr> \<rparr>
          else st\<lparr> has_homoglyphs := False \<rparr>)"

definition step_typos :: "builtins \<Rightarrow> ustring \<Rightarrow> locals \<Rightarrow> locals" where
  "step_typos B domain st =
     (case detect_typosquatting B domain BRAND_KEYWORDS of
        (ht, typos_list) \<Rightarrow>
          if ht
          then st\<lparr> has_typos := True, score := score st + 25,
                   details := (details st)\<lparr> typosquatting_detected := True,
                                              typosquatting_details := typos_list \<rparr> \<rparr>
          else st\<lparr> has_typos := False \<rparr>)"

text \<open>4 and 5: free hosting (+25) and suspicious TLD (+20); the first suffix wins.\<close>

definition step_free_hosting :: "ustring \<Rightarrow> locals \<Rightarrow> locals" where
  "step_free_hosting domain_lower st =
     (case find (\<lambda>sfx. endswith domain_lower sfx) FREE_HOSTING_SUFFIXES of
        Some sfx \<Rightarrow>
          st\<lparr> score := score st + 25,
              details := (details st)\<lparr> free_hosting := Some sfx \<rparr> \<rparr>
      | None \<Rightarrow> st)"

definition step_suspicious_tld :: "ustring \<Rightarrow> locals \<Rightarrow> locals" where
  "step_suspicious_tld domain_lower st =
     (case find (\<lambda>tld. endswith domain_lower tld) SUSPICIOUS_TLDS of
        Some tld \<Rightarrow>
          st\<lparr> score := score st + 20,
              details := (details st)\<lparr> suspicious_tld := Some tld \<rparr> \<rparr>
      | None \<Rightarrow> st)"

text \<open>6: geographic indicator (+15); \<open>has_bg_context\<close> starts as \<open>False\<close> here.\<close>

definition step_geo :: "ustring \<Rightarrow> locals \<Rightarrow> locals" where
  "step_geo domain_lower st =
     (case find (\<lambda>geo. contains domain_lower geo) GEO_INDICATORS of
        Some geo \<Rightarrow>
          st\<lparr> score := score st + 15,
              details := (details st)\<lparr> geo_indicators := geo_indicators (details st) @ [geo] \<rparr>,
              has_bg_context := True \<rparr>
      | None \<Rightarrow> st\<lparr> has_bg_context := False \<rparr>)"

text \<open>7 and 8: transaction keyword (+10), two hyphens or more (+10).\<close>

definition step_transaction :: "ustring \<Rightarrow> locals \<Rightarrow> locals" where
  "step_transaction domain_lower st =
     (case find (\<lambda>keyword. contains domain_lower keyword) TRANSACTION_KEYWORDS of
        Some keyword \<Rightarrow>
          st\<lparr> score := score st + 10,
              details := (details st)\<lparr> transaction_keywords :=
                                         transaction_keywords (details st) @ [keyword] \<rparr> \<rparr>
      | None \<Rightarrow> st)"

definition step_hyphens :: "ustring \<Rightarrow> locals \<Rightarrow> locals" where
  "step_hyphens domain_lower st =
     (let hyphen_count = count_list domain_lower 45
      in if hyphen_count \<ge> 2
         then st\<lparr> score := score st + 10,
                  details := (details st)\<lparr> multiple_hyphens := True \<rparr> \<rparr>
         else st)"

text \<open>
  9: numeric suffix (+10). \<open>digits_then_dot B n\<close> is the pattern \<open>\d{n,}\.\<close> at the start
  of the string: \<open>n\<close> digits or more, then a dot.
\<close>

fun digits_then_dot :: "builtins \<Rightarrow> nat \<Rightarrow> ustring \<Rightarrow> bool" where
  "digits_then_dot B n [] = False"
| "digits_then_dot B n (c # cs) =
     ((n = 0 \<and> c = 46) \<or> (re_digit B c \<and> digits_then_dot B (n - 1) cs))"

fun hyphen_digits_dot :: "builtins \<Rightarrow> ustring \<Rightarrow> bool" where
  "hyphen_digits_dot B [] = False"
| "hyphen_digits_dot B (c # cs) = (c = 45 \<and> digits_then_dot B 3 cs)"

definition step_numeric :: "builtins \<Rightarrow> ustring \<Rightarrow> locals \<Rightarrow> locals" where
  "step_numeric B domain_lower st =
     (if re_search (hyphen_digits_dot B) domain_lower \<or>
         re_search (digits_then_dot B 4) domain_lower
      then st\<lparr> score := score st + 10,
               details := (details st)\<lparr> numeric_suffix := True \<rparr> \<rparr>
      else st)"

text \<open>10: four dot-separated parts or more (+10).\<close>

definition step_stacking :: "ustring \<Rightarrow> locals \<Rightarrow> locals" where
  "step_stacking domain_lower st =
     (let parts = split_dot domain_lower
      in if length parts \<ge> 4
         then st\<lparr> score := score st + 10,
                  details := (details st)\<lparr> subdomain_stacking := True \<rparr> \<rparr>
         else st)"

text \<open>
  11: entropy of the first label (+10). A run of three consonants or more is matched
  greedily, so one match is one maximal run. In \<open>[a-z]+\d+[a-z]+|\d+[a-z]+\d+\<close> the
  two classes are disjoint, so each greedy \<open>+\<close> takes a maximal run and backtracking
  finds nothing more; the first alternative is tried first.
\<close>

definition run_length :: "(int \<Rightarrow> bool) \<Rightarrow> ustring \<Rightarrow> nat" where
  "run_length cls s = length (takeWhile cls s)"

definition match_consonants :: "ustring \<Rightarrow> nat option" where
  "match_consonants s =
     (let n = run_length re_consonant s in if n \<ge> 3 then Some n else None)"

definition match_three_runs :: "(int \<Rightarrow> bool) \<Rightarrow> (int \<Rightarrow> bool) \<Rightarrow> ustring \<Rightarrow> nat option" where
  "match_three_runs outer inner s =
     (let k1 = run_length outer s;
          k2 = run_length inner (drop k1 s);
          k3 = run_length outer (drop (k1 + k2) s)
      in if k1 \<ge> 1 \<and> k2 \<ge> 1 \<and> k3 \<ge> 1 then Some (k1 + k2 + k3) else None)"

definition match_mixed :: "builtins \<Rightarrow> ustring \<Rightarrow> nat option" where
  "match_mixed B s =
     (case match_three_runs re_az (re_digit B) s of
        Some n \<Rightarrow> Some n
      | None \<Rightarrow> match_three_runs (re_digit B) re_az s)"

definition first_label :: "ustring \<Rightarrow> ustring" where
  "first_label domain_lower =
     (case split_dot domain_lower of [] \<Rightarrow> [] | domain_name # rest \<Rightarrow> domain_name)"

definition step_entropy :: "builtins \<Rightarrow> ustring \<Rightarrow> locals \<Rightarrow> locals" where
  "step_entropy B domain_lower st =
     (let domain_name = first_label domain_lower
      in if length domain_name > 10
         then (let consonant_clusters = findall_count match_consonants domain_name;
                   mixed_alphanum = findall_count (match_mixed B) domain_name
               in if consonant_clusters \<ge> 2 \<or> mixed_alphanum \<ge> 2
                  then st\<lparr> score := score st + 10,
                           details := (details st)\<lparr> high_entropy := True \<rparr> \<rparr>
                  else st)
         else st)"

text \<open>
  Bonus: \<open>\.bg-[a-z]{2,4}\.(cfd|tk|ml|ga|cf|gq|xyz|online|site|click|icu)\<close> (+10);
  it sets \<open>has_bg_context\<close>.
\<close>

definition BG_ABUSE_TLDS :: "ustring list" where
  "BG_ABUSE_TLDS = map ustr
     [''cfd'', ''tk'', ''ml'', ''ga'', ''cf'', ''gq'', ''xyz'', ''online'', ''site'',
      ''click'', ''icu'']"

definition match_bg_abuse :: "ustring \<Rightarrow> bool" where
  "match_bg_abuse s =
     (startswith s (ustr ''.bg-'') \<and>
      (let r = drop 4 s
       in list_ex (\<lambda>k. k \<le> length r \<and> list_all re_az (take k r) \<and>
                        list_ex (\<lambda>t. startswith (drop k r) (ustr ''.'' @ t)) BG_ABUSE_TLDS)
            [2, 3, 4]))"

definition step_bg_abuse :: "ustring \<Rightarrow> locals \<Rightarrow> locals" where
  "step_bg_abuse domain_lower st =
     (if re_search match_bg_abuse domain_lower
      then st\<lparr> score := score st + 10,
               details := (details st)\<lparr> bg_tld_abuse := True \<rparr>,
               has_bg_context := True \<rparr>
      else st)"

text \<open>The fallback: \<open>bg\<close> or \<open>bulgaria\<close> anywhere, looked for only without context.\<close>

definition step_bg_fallback :: "ustring \<Rightarrow> locals \<Rightarrow> locals" where
  "step_bg_fallback domain_lower st =
     (if \<not> has_bg_context st
      then (if contains domain_lower (ustr ''bg'') \<or> contains domain_lower (ustr ''bulgaria'')
            then st\<lparr> has_bg_context := True \<rparr>
            else st)
      else st)"

text \<open>
  Bonus: direct impersonation (+15). Each pattern is two literals with an optional
  hyphen between them, \<open>a-?b\<close>; the first pattern found ends the loop.
\<close>

definition direct_impersonation_patterns :: "(ustring \<times> ustring) list" where
  "direct_impersonation_patterns = map (\<lambda>(a, b). (ustr a, ustr b))
     [(''econt'', ''bg''), (''speedy'', ''bg''), (''bgpost'', ''bg''), (''olx'', ''bg''),
      (''sameday'', ''bg''), (''easypay'', ''bg''), (''epay'', ''bg''), (''borica'', ''bg''),
      (''bg'', ''econt''), (''bg'', ''speedy''), (''bg'', ''post''), (''bg'', ''olx'')]"

definition match_optional_hyphen :: "ustring \<times> ustring \<Rightarrow> ustring \<Rightarrow> bool" where
  "match_optional_hyphen pattern s =
     (case pattern of
        (a, b) \<Rightarrow> startswith s (a @ ustr ''-'' @ b) \<or> startswith s (a @ b))"

definition step_direct :: "ustring \<Rightarrow> locals \<Rightarrow> locals" where
  "step_direct domain_lower st =
     (case find (\<lambda>pattern. re_search (match_optional_hyphen pattern) domain_lower)
             direct_impersonation_patterns of
        Some pattern \<Rightarrow>
          st\<lparr> score := score st + 15,
              details := (details st)\<lparr> direct_impersonation := True \<rparr>,
              has_bg_context := True \<rparr>
      | None \<Rightarrow> st)"

text \<open>The penalty (-20) and the clamp.\<close>

definition step_penalty :: "locals \<Rightarrow> locals" where
  "step_penalty st =
     (let st = st\<lparr> apply_penalty := False \<rparr>;
          st = (if (has_brand st \<or> has_homoglyphs st \<or> has_typos st) \<and> \<not> has_bg_context st
                then (if \<not> direct_impersonation (details st)
                      then st\<lparr> apply_penalty := True \<rparr> else st)
                else st)
      in if apply_penalty st
         then st\<lparr> score := score st - 20,
                  details := (details st)\<lparr> non_bg_context_penalty := True \<rparr> \<rparr>
         else st)"

definition run_steps :: "builtins \<Rightarrow> ustring \<Rightarrow> locals" where
  "run_steps B domain =
     (let domain_lower = strip_www (str_lower B domain);
          st = initial_locals;
          st = step_brand B domain st;
          st = step_homoglyphs B domain st;
          st = step_typos B domain st;
          st = step_free_hosting domain_lower st;
          st = step_suspicious_tld domain_lower st;
          st = step_geo domain_lower st;
          st = step_transaction domain_lower st;
          st = step_hyphens domain_lower st;
          st = step_numeric B domain_lower st;
          st = step_stacking domain_lower st;
          st = step_entropy B domain_lower st;
          st = step_bg_abuse domain_lower st;
          st = step_bg_fallback domain_lower st;
          st = step_direct domain_lower st
      in step_penalty st)"

definition calculate_score :: "builtins \<Rightarrow> ustring \<Rightarrow> int \<times> details" where
  "calculate_score B domain =
     (let st = run_steps B domain
      in (min (max (score st) 0) 100, details st))"

section \<open>The scan pipeline\<close>

definition is_infrastructure_domain :: "builtins \<Rightarrow> ustring \<Rightarrow> bool" where
  "is_infrastructure_domain B domain =
     (let domain_lower = str_lower B domain
      in list_ex (\<lambda>pattern. contains domain_lower pattern) INFRASTRUCTURE_PATTERNS)"

definition contains_courier_keyword :: "builtins \<Rightarrow> ustring \<Rightarrow> bool \<times> ustring list" where
  "contains_courier_keyword B domain = contains_brand_impersonation B domain"

text \<open>
  An entry of the feed file; \<open>detected_at\<close>, the wall-clock time of the detection, is
  left out.
\<close>

record feed_entry =
  fe_domain :: ustring
  fe_score :: int
  fe_details :: details
  fe_source :: ustring

definition add_to_feed :: "ustring \<Rightarrow> int \<Rightarrow> details \<Rightarrow> ustring \<Rightarrow> feed_entry list \<Rightarrow> feed_entry list" where
  "add_to_feed domain sc det source feed_data =
     (if list_ex (\<lambda>entry. fe_domain entry = domain) feed_data then feed_data
      else feed_data @
             [\<lparr> fe_domain = domain, fe_score = sc, fe_details = det, fe_source = source \<rparr>])"

text \<open>
  The state of \<open>scan_domains\<close>: its local variables, the feed file, and \<open>scored\<close>, the
  arguments of the calls of \<open>calculate_score\<close> made so far, in order.
\<close>

record scan_state =
  processed_domains :: "ustring set"
  findings_count :: nat
  feed :: "feed_entry list"
  scored :: "ustring list"

text \<open>What the loop does with a domain that passed the three filters.\<close>

definition score_domain :: "builtins \<Rightarrow> ustring \<Rightarrow> scan_state \<Rightarrow> scan_state" where
  "score_domain B domain st =
     (case contains_courier_keyword B domain of
        (has_courier, courier_keywords) \<Rightarrow>
          (case calculate_score B domain of
             (sc, det) \<Rightarrow>
               (let st = st\<lparr> scored := scored st @ [domain] \<rparr>;
                    has_transaction =
                      list_ex (\<lambda>kw. contains (str_lower B domain) kw) TRANSACTION_KEYWORDS
                in if \<not> has_courier \<and> \<not> has_transaction \<and> sc < 60 then st
                   else if sc \<ge> SCORE_THRESHOLD
                   then st\<lparr> findings_count := findings_count st + 1,
                            feed := add_to_feed domain sc det (ustr ''scanner'') (feed st) \<rparr>
                   else st)))"

text \<open>
  The loop over \<open>all_domains\<close>, a set iterated in some order: the list \<open>candidates\<close>.
  \<open>deadline_passed i\<close> says whether the wall clock is beyond \<open>duration\<close> when iteration
  \<open>i\<close> starts (never, without a duration); the loop breaks then.
\<close>

fun scan_loop :: "builtins \<Rightarrow> (nat \<Rightarrow> bool) \<Rightarrow> nat \<Rightarrow> ustring list \<Rightarrow> scan_state \<Rightarrow> scan_state" where
  "scan_loop B deadline_passed i [] st = st"
| "scan_loop B deadline_passed i (candidate # rest) st =
     (if deadline_passed i then st
      else
        (let domain = strip B candidate
         in if domain = [] \<or> startswith domain (ustr ''*'') \<or> domain \<in> processed_domains st
            then scan_loop B deadline_passed (i + 1) rest st
            else
              (let st = st\<lparr> processed_domains := insert domain (processed_domains st) \<rparr>
               in if is_infrastructure_domain B domain
                  then scan_loop B deadline_passed (i + 1) rest st
                  else if is_whitelisted B domain
                  then scan_loop B deadline_passed (i + 1) rest st
                  else if \<not> List.member MANUAL_CHECK_DOMAINS domain \<and>
                          \<not> list_ex (\<lambda>sfx. endswith domain sfx) TARGET_SUFFIXES
                  then scan_loop B deadline_passed (i + 1) rest st
                  else scan_loop B deadline_passed (i + 1) rest (score_domain B domain st))))"

definition scan_domains :: "builtins \<Rightarrow> (nat \<Rightarrow> bool) \<Rightarrow> ustring list \<Rightarrow> feed_entry list \<Rightarrow> scan_state" where
  "scan_domains B deadline_passed all_domains feed_file =
     scan_loop B deadline_passed 0 all_domains
       \<lparr> processed_domains = {}, findings_count = 0, feed = feed_file, scored = [] \<rparr>"

section \<open>The signals by name\<close>

text \<open>
  Names for the conditions \<open>calculate_score\<close> tests, and the sum of the weights of
  the signals that fired, so that the properties of the score can be stated.
\<close>

definition normalized :: "builtins \<Rightarrow> ustring \<Rightarrow> ustring" where
  "normalized B domain = strip_www (str_lower B domain)"

definition geo_fired :: "ustring \<Rightarrow> bool" where
  "geo_fired domain_lower = list_ex (\<lambda>geo. contains domain_lower geo) GEO_INDICATORS"

definition fallback_fired :: "ustring \<Rightarrow> bool" where
  "fallback_fired domain_lower =
     (contains domain_lower (ustr ''bg'') \<or> contains domain_lower (ustr ''bulgaria''))"

definition abuse_fired :: "ustring \<Rightarrow> bool" where
  "abuse_fired domain_lower = re_search match_bg_abuse domain_lower"

definition direct_fired :: "ustring \<Rightarrow> bool" where
  "direct_fired domain_lower =
     list_ex (\<lambda>pattern. re_search (match_optional_hyphen pattern) domain_lower)
       direct_impersonation_patterns"

definition brand_derived_fired :: "builtins \<Rightarrow> ustring \<Rightarrow> bool" where
  "brand_derived_fired B domain =
     (fst (contains_brand_impersonation B domain) \<or>
      fst (detect_homoglyphs B domain BRAND_KEYWORDS) \<or>
      fst (detect_typosquatting B domain BRAND_KEYWORDS))"

definition weight :: "bool \<Rightarrow> int \<Rightarrow> int" where
  "weight fired w = (if fired then w else 0)"

definition signal_sum :: "builtins \<Rightarrow> ustring \<Rightarrow> int" where
  "signal_sum B domain =
     (let domain_lower = normalized B domain
      in weight (fst (contains_brand_impersonation B domain)) 40 +
         weight (fst (detect_homoglyphs B domain BRAND_KEYWORDS)) 30 +
         weight (fst (detect_typosquatting B domain BRAND_KEYWORDS)) 25 +
         weight (list_ex (\<lambda>sfx. endswith domain_lower sfx) FREE_HOSTING_SUFFIXES) 25 +
         weight (list_ex (\<lambda>tld. endswith domain_lower tld) SUSPICIOUS_TLDS) 20 +
         weight (geo_fired domain_lower) 15 +
         weight (list_ex (\<lambda>keyword. contains domain_lower keyword) TRANSACTION_KEYWORDS) 10 +
         weight (count_list domain_lower 45 \<ge> 2) 10 +
         weight (re_search (hyphen_digits_dot B) domain_lower \<or>
                 re_search (digits_then_dot B 4) domain_lower) 10 +
         weight (length (split_dot domain_lower) \<ge> 4) 10 +
         weight (length (first_label domain_lower) > 10 \<and>
                 (findall_count match_consonants (first_label domain_lower) \<ge> 2 \<or>
                  findall_count (match_mixed B) (first_label domain_lower) \<ge> 2)) 10 +
         weight (abuse_fired domain_lower) 10 +
         weight (direct_fired domain_lower) 15)"

section \<open>Typosquatting: the statements to compare with\<close>

text \<open>
  What one part contributes for one brand; the positions at which two strings differ
  and the edit kind as the specification words it (a swap is two differing positions
  that are adjacent and mirrored); the pair that identifies a match.
\<close>

definition typo_entries :: "ustring \<Rightarrow> ustring \<Rightarrow> typo_match list" where
  "typo_entries brand part =
     (if 3 \<le> length part \<and> 0 < levenshtein_distance part brand \<and>
         levenshtein_distance part brand \<le> 2 \<and>
         \<bar>int (length part) - int (length brand)\<bar> \<le> 2 \<and> part \<noteq> brand
      then [\<lparr> t_brand = brand, t_typo = part,
              t_distance = levenshtein_distance part brand,
              t_type = classify_typo_type brand part \<rparr>]
      else [])"

text \<open>
  Modelled on the specification's wording of the edit kind, to compare with
  \<open>classify_typo_type\<close>.
\<close>

definition differing_positions :: "ustring \<Rightarrow> ustring \<Rightarrow> nat list" where
  "differing_positions original typo =
     filter (\<lambda>i. original ! i \<noteq> typo ! i) [0..<min (length original) (length typo)]"

definition typo_type_claimed :: "ustring \<Rightarrow> ustring \<Rightarrow> typo_type" where
  "typo_type_claimed original typo =
     (if length typo < length original then missing_char
      else if length typo > length original then extra_char
      else (case differing_positions original typo of
              [i, j] \<Rightarrow> if j = i + 1 \<and> original ! i = typo ! j \<and> original ! j = typo ! i
                        then swapped_chars else substitution
            | _ \<Rightarrow> substitution))"

definition typo_key :: "typo_match \<Rightarrow> ustring \<times> ustring" where
  "typo_key e = (t_brand e, t_typo e)"

text \<open>The test the loops make before they append an entry for a brand and a part.\<close>

definition typo_recorded :: "ustring \<Rightarrow> ustring \<Rightarrow> bool" where
  "typo_recorded brand part =
     (4 \<le> length brand \<and> 3 \<le> length part \<and> 0 < levenshtein_distance part brand \<and>
      levenshtein_distance part brand \<le> 2 \<and>
      \<bar>int (length part) - int (length brand)\<bar> \<le> 2 \<and> part \<noteq> brand)"

section \<open>Brand matching: the statements to compare with\<close>

text \<open>
  The brand occurs in the string bounded on both sides by the start or the end of the
  string, a dot or a hyphen. In the second form a single line feed that ends the
  string also counts as the end, as \<open>$\<close> has it.
\<close>

definition bounded_occurrence :: "ustring \<Rightarrow> ustring \<Rightarrow> bool" where
  "bounded_occurrence brand s =
     (\<exists>before after. s = before @ brand @ after \<and>
        (before = [] \<or> is_separator (last before)) \<and>
        (after = [] \<or> is_separator (hd after)))"

definition bounded_occurrence_nl :: "ustring \<Rightarrow> ustring \<Rightarrow> bool" where
  "bounded_occurrence_nl brand s =
     (\<exists>before after. s = before @ brand @ after \<and>
        (before = [] \<or> is_separator (last before)) \<and>
        (after = [] \<or> after = [10] \<or> is_separator (hd after)))"

section \<open>Homoglyphs: the statements to compare with\<close>

text \<open>
  \<open>homoglyph_hit\<close> is the test the loop body makes on one part for one brand.
  \<open>homoglyph_hit_claimed\<close> is modelled on the specification's wording: a label of
  length 3 or more, within 2 of the brand's length, with a non-ASCII character or a
  \<open>0\<close>, whose normal form is the brand, or has length 4 or more and occurs in the brand,
  or which is the brand once \<open>0\<close> is replaced by \<open>o\<close>. \<open>cyrillic_econt_cfd\<close> is the
  domain of the second example: Cyrillic \<open>e\<close>, \<open>s\<close>, \<open>o\<close>, then Latin \<open>nt.cfd\<close>.
\<close>

definition homoglyph_hit :: "ustring \<Rightarrow> ustring \<Rightarrow> bool" where
  "homoglyph_hit brand part =
     (3 \<le> length part \<and> \<bar>int (length part) - int (length brand)\<bar> \<le> 2 \<and>
      ((has_non_ascii part \<and>
        (normalize_homoglyphs part = brand \<or>
         (4 \<le> length (normalize_homoglyphs part) \<and> contains brand (normalize_homoglyphs part)))) \<or>
       (List.member part 48 \<and> replace_zero part = brand)))"

definition homoglyph_hit_claimed :: "ustring \<Rightarrow> ustring \<Rightarrow> bool" where
  "homoglyph_hit_claimed brand label =
     (3 \<le> length label \<and> \<bar>int (length label) - int (length brand)\<bar> \<le> 2 \<and>
      (has_non_ascii label \<or> List.member label 48) \<and>
      (normalize_homoglyphs label = brand \<or>
       (4 \<le> length (normalize_homoglyphs label) \<and> contains brand (normalize_homoglyphs label)) \<or>
       replace_zero label = brand))"

definition cyrillic_econt_cfd :: ustring where
  "cyrillic_econt_cfd = [1077, 1089, 1086, 110, 116] @ ustr ''.cfd''"

section \<open>The whitelist: the statement to compare with\<close>

text \<open>
  The lower-cased, \<open>www.\<close>-stripped form is a whitelist entry, or ends with a dot
  followed by one.
\<close>

definition whitelisted_form :: "ustring \<Rightarrow> bool" where
  "whitelisted_form domain_lower =
     list_ex (\<lambda>whitelisted. domain_lower = whitelisted \<or>
                endswith domain_lower (ustr ''.'' @ whitelisted)) WHITELISTED_DOMAINS"

section \<open>Verification\<close>

subsection \<open>The edit distance\<close>

text \<open>
  The rows of the table keep the length \<open>len(s2) + 1\<close>, so every index the loops read
  is in range, and no cell is negative.
\<close>

lemma levenshtein_inner_inv:
  "\<lbrakk>\<forall>x\<in>set previous_row. 0 \<le> x; \<forall>x\<in>set current_row. 0 \<le> x;
    length current_row = j + 1; length previous_row = j + length rest + 1\<rbrakk>
   \<Longrightarrow> (\<forall>x\<in>set (levenshtein_inner c1 previous_row rest j current_row). 0 \<le> x) \<and>
       length (levenshtein_inner c1 previous_row rest j current_row) = length previous_row"
proof (induction rest arbitrary: j current_row)
  case Nil
  then show ?case by simp
next
  case (Cons c2 rest)
  let ?v = "min (previous_row ! (j + 1) + 1)
              (min (current_row ! j + 1) (previous_row ! j + (if c1 \<noteq> c2 then 1 else 0)))"
  have p1: "0 \<le> previous_row ! (j + 1)" and p0: "0 \<le> previous_row ! j"
    using Cons.prems(1,4) by (simp_all add: all_set_conv_all_nth)
  have c0: "0 \<le> current_row ! j"
    using Cons.prems(2,3) by (simp add: all_set_conv_all_nth)
  have v: "0 \<le> ?v" using p1 p0 c0 by simp
  have "(\<forall>x\<in>set (levenshtein_inner c1 previous_row rest (j + 1) (current_row @ [?v])). 0 \<le> x) \<and>
        length (levenshtein_inner c1 previous_row rest (j + 1) (current_row @ [?v])) = length previous_row"
    using Cons.prems v by (intro Cons.IH) auto
  then show ?case by (simp add: Let_def)
qed

lemma levenshtein_outer_inv:
  "\<lbrakk>\<forall>x\<in>set previous_row. 0 \<le> x; length previous_row = length s2 + 1\<rbrakk>
   \<Longrightarrow> (\<forall>x\<in>set (levenshtein_outer s1 s2 i previous_row). 0 \<le> x) \<and>
       length (levenshtein_outer s1 s2 i previous_row) = length s2 + 1"
proof (induction s1 arbitrary: i previous_row)
  case Nil
  then show ?case by simp
next
  case (Cons c1 rest)
  have "(\<forall>x\<in>set (levenshtein_inner c1 previous_row s2 0 [int i + 1]). 0 \<le> x) \<and>
        length (levenshtein_inner c1 previous_row s2 0 [int i + 1]) = length previous_row"
    using Cons.prems by (intro levenshtein_inner_inv) auto
  then have "(\<forall>x\<in>set (levenshtein_inner c1 previous_row s2 0 [int i + 1]). 0 \<le> x)"
    and "length (levenshtein_inner c1 previous_row s2 0 [int i + 1]) = length s2 + 1"
    using Cons.prems(2) by simp_all
  then have "(\<forall>x\<in>set (levenshtein_outer rest s2 (i + 1)
                 (levenshtein_inner c1 previous_row s2 0 [int i + 1])). 0 \<le> x) \<and>
        length (levenshtein_outer rest s2 (i + 1)
                 (levenshtein_inner c1 previous_row s2 0 [int i + 1])) = length s2 + 1"
    by (rule Cons.IH)
  then show ?case by simp
qed

lemma levenshtein_core_nonneg:
  "0 \<le> last (levenshtein_outer s1 s2 0 (map int [0..<length s2 + 1]))"
proof -
  let ?r = "levenshtein_outer s1 s2 0 (map int [0..<length s2 + 1])"
  have "(\<forall>x\<in>set ?r. 0 \<le> x) \<and> length ?r = length s2 + 1"
    by (intro levenshtein_outer_inv) auto
  then have "?r \<noteq> []" "\<forall>x\<in>set ?r. 0 \<le> x" by auto
  then show ?thesis using last_in_set by blast
qed

lemma levenshtein_distance_nonneg: "0 \<le> levenshtein_distance s1 s2"
proof (cases "length s1 < length s2")
  case True
  then have "levenshtein_distance s1 s2 = levenshtein_distance s2 s1"
    by (subst levenshtein_distance.simps) simp
  also have "0 \<le> levenshtein_distance s2 s1"
    using True levenshtein_core_nonneg [of s2 s1]
    by (subst levenshtein_distance.simps) (simp del: upt_Suc)
  finally show ?thesis .
next
  case False
  then show ?thesis
    using levenshtein_core_nonneg [of s1 s2]
    by (subst levenshtein_distance.simps) (simp del: upt_Suc)
qed

lemma levenshtein_distance_empty_right: "levenshtein_distance s [] = int (length s)"
  by (subst levenshtein_distance.simps) simp

lemma levenshtein_distance_empty_left: "levenshtein_distance [] s = int (length s)"
proof (cases s)
  case Nil
  then show ?thesis by (simp add: levenshtein_distance_empty_right)
next
  case (Cons c cs)
  then have "levenshtein_distance [] s = levenshtein_distance s []"
    by (subst levenshtein_distance.simps) simp
  then show ?thesis by (simp add: levenshtein_distance_empty_right)
qed

text \<open>
  C9: for all strings \<open>s1\<close> and \<open>s2\<close>, \<open>levenshtein_distance s1 s2\<close> is not negative, and
  when either argument is the empty string the result is the length of the other.
\<close>

theorem levenshtein_nonneg_and_empty:
  "0 \<le> levenshtein_distance s1 s2 \<and>
   levenshtein_distance [] s2 = int (length s2) \<and>
   levenshtein_distance s1 [] = int (length s1)"
  by (simp add: levenshtein_distance_nonneg levenshtein_distance_empty_left
      levenshtein_distance_empty_right)

theorem levenshtein_nonneg_and_empty_witness:
  "0 \<le> levenshtein_distance (ustr ''spedy'') (ustr ''speedy'') \<and>
   levenshtein_distance [] (ustr ''speedy'') = 6 \<and>
   levenshtein_distance (ustr ''spedy'') [] = 5"
  using levenshtein_nonneg_and_empty [of "ustr ''spedy''" "ustr ''speedy''"]
  by (simp add: ustr_def)

subsection \<open>The score\<close>

lemma find_None_list_ex: "(find P xs = None) = (\<not> list_ex P xs)"
  by (induction xs) auto

lemma find_Some_list_ex: "find P xs = Some x \<Longrightarrow> list_ex P xs"
  by (induction xs) (auto split: if_splits)

lemma step_brand_obs:
  "score (step_brand B domain st) = score st + weight (fst (contains_brand_impersonation B domain)) 40"
  "has_brand (step_brand B domain st) = fst (contains_brand_impersonation B domain)"
  "has_homoglyphs (step_brand B domain st) = has_homoglyphs st"
  "has_typos (step_brand B domain st) = has_typos st"
  "has_bg_context (step_brand B domain st) = has_bg_context st"
  "direct_impersonation (details (step_brand B domain st)) = direct_impersonation (details st)"
  "non_bg_context_penalty (details (step_brand B domain st)) = non_bg_context_penalty (details st)"
  by (simp_all add: step_brand_def weight_def split: prod.split)

lemma step_homoglyphs_obs:
  "score (step_homoglyphs B domain st) =
     score st + weight (fst (detect_homoglyphs B domain BRAND_KEYWORDS)) 30"
  "has_brand (step_homoglyphs B domain st) = has_brand st"
  "has_homoglyphs (step_homoglyphs B domain st) = fst (detect_homoglyphs B domain BRAND_KEYWORDS)"
  "has_typos (step_homoglyphs B domain st) = has_typos st"
  "has_bg_context (step_homoglyphs B domain st) = has_bg_context st"
  "direct_impersonation (details (step_homoglyphs B domain st)) = direct_impersonation (details st)"
  "non_bg_context_penalty (details (step_homoglyphs B domain st)) = non_bg_context_penalty (details st)"
  by (simp_all add: step_homoglyphs_def weight_def split: prod.split)

lemma step_typos_obs:
  "score (step_typos B domain st) =
     score st + weight (fst (detect_typosquatting B domain BRAND_KEYWORDS)) 25"
  "has_brand (step_typos B domain st) = has_brand st"
  "has_homoglyphs (step_typos B domain st) = has_homoglyphs st"
  "has_typos (step_typos B domain st) = fst (detect_typosquatting B domain BRAND_KEYWORDS)"
  "has_bg_context (step_typos B domain st) = has_bg_context st"
  "direct_impersonation (details (step_typos B domain st)) = direct_impersonation (details st)"
  "non_bg_context_penalty (details (step_typos B domain st)) = non_bg_context_penalty (details st)"
  by (simp_all add: step_typos_def weight_def split: prod.split)

lemma step_free_hosting_obs:
  "score (step_free_hosting dl st) =
     score st + weight (list_ex (\<lambda>sfx. endswith dl sfx) FREE_HOSTING_SUFFIXES) 25"
  "has_brand (step_free_hosting dl st) = has_brand st"
  "has_homoglyphs (step_free_hosting dl st) = has_homoglyphs st"
  "has_typos (step_free_hosting dl st) = has_typos st"
  "has_bg_context (step_free_hosting dl st) = has_bg_context st"
  "direct_impersonation (details (step_free_hosting dl st)) = direct_impersonation (details st)"
  "non_bg_context_penalty (details (step_free_hosting dl st)) = non_bg_context_penalty (details st)"
  by (auto simp add: step_free_hosting_def weight_def find_None_list_ex
      dest: find_Some_list_ex split: option.split)

lemma step_suspicious_tld_obs:
  "score (step_suspicious_tld dl st) =
     score st + weight (list_ex (\<lambda>tld. endswith dl tld) SUSPICIOUS_TLDS) 20"
  "has_brand (step_suspicious_tld dl st) = has_brand st"
  "has_homoglyphs (step_suspicious_tld dl st) = has_homoglyphs st"
  "has_typos (step_suspicious_tld dl st) = has_typos st"
  "has_bg_context (step_suspicious_tld dl st) = has_bg_context st"
  "direct_impersonation (details (step_suspicious_tld dl st)) = direct_impersonation (details st)"
  "non_bg_context_penalty (details (step_suspicious_tld dl st)) = non_bg_context_penalty (details st)"
  by (auto simp add: step_suspicious_tld_def weight_def find_None_list_ex
      dest: find_Some_list_ex split: option.split)

lemma step_geo_obs:
  "score (step_geo dl st) = score st + weight (geo_fired dl) 15"
  "has_brand (step_geo dl st) = has_brand st"
  "has_homoglyphs (step_geo dl st) = has_homoglyphs st"
  "has_typos (step_geo dl st) = has_typos st"
  "has_bg_context (step_geo dl st) = geo_fired dl"
  "direct_impersonation (details (step_geo dl st)) = direct_impersonation (details st)"
  "non_bg_context_penalty (details (step_geo dl st)) = non_bg_context_penalty (details st)"
  by (auto simp add: step_geo_def geo_fired_def weight_def find_None_list_ex
      dest: find_Some_list_ex split: option.split)

lemma step_transaction_obs:
  "score (step_transaction dl st) =
     score st + weight (list_ex (\<lambda>keyword. contains dl keyword) TRANSACTION_KEYWORDS) 10"
  "has_brand (step_transaction dl st) = has_brand st"
  "has_homoglyphs (step_transaction dl st) = has_homoglyphs st"
  "has_typos (step_transaction dl st) = has_typos st"
  "has_bg_context (step_transaction dl st) = has_bg_context st"
  "direct_impersonation (details (step_transaction dl st)) = direct_impersonation (details st)"
  "non_bg_context_penalty (details (step_transaction dl st)) = non_bg_context_penalty (details st)"
  by (auto simp add: step_transaction_def weight_def find_None_list_ex
      dest: find_Some_list_ex split: option.split)

lemma step_hyphens_obs:
  "score (step_hyphens dl st) = score st + weight (count_list dl 45 \<ge> 2) 10"
  "has_brand (step_hyphens dl st) = has_brand st"
  "has_homoglyphs (step_hyphens dl st) = has_homoglyphs st"
  "has_typos (step_hyphens dl st) = has_typos st"
  "has_bg_context (step_hyphens dl st) = has_bg_context st"
  "direct_impersonation (details (step_hyphens dl st)) = direct_impersonation (details st)"
  "non_bg_context_penalty (details (step_hyphens dl st)) = non_bg_context_penalty (details st)"
  by (simp_all add: step_hyphens_def weight_def Let_def)

lemma step_numeric_obs:
  "score (step_numeric B dl st) =
     score st + weight (re_search (hyphen_digits_dot B) dl \<or> re_search (digits_then_dot B 4) dl) 10"
  "has_brand (step_numeric B dl st) = has_brand st"
  "has_homoglyphs (step_numeric B dl st) = has_homoglyphs st"
  "has_typos (step_numeric B dl st) = has_typos st"
  "has_bg_context (step_numeric B dl st) = has_bg_context st"
  "direct_impersonation (details (step_numeric B dl st)) = direct_impersonation (details st)"
  "non_bg_context_penalty (details (step_numeric B dl st)) = non_bg_context_penalty (details st)"
  by (simp_all add: step_numeric_def weight_def)

lemma step_stacking_obs:
  "score (step_stacking dl st) = score st + weight (length (split_dot dl) \<ge> 4) 10"
  "has_brand (step_stacking dl st) = has_brand st"
  "has_homoglyphs (step_stacking dl st) = has_homoglyphs st"
  "has_typos (step_stacking dl st) = has_typos st"
  "has_bg_context (step_stacking dl st) = has_bg_context st"
  "direct_impersonation (details (step_stacking dl st)) = direct_impersonation (details st)"
  "non_bg_context_penalty (details (step_stacking dl st)) = non_bg_context_penalty (details st)"
  by (simp_all add: step_stacking_def weight_def Let_def)

lemma step_entropy_obs:
  "score (step_entropy B dl st) =
     score st + weight (length (first_label dl) > 10 \<and>
                 (findall_count match_consonants (first_label dl) \<ge> 2 \<or>
                  findall_count (match_mixed B) (first_label dl) \<ge> 2)) 10"
  "has_brand (step_entropy B dl st) = has_brand st"
  "has_homoglyphs (step_entropy B dl st) = has_homoglyphs st"
  "has_typos (step_entropy B dl st) = has_typos st"
  "has_bg_context (step_entropy B dl st) = has_bg_context st"
  "direct_impersonation (details (step_entropy B dl st)) = direct_impersonation (details st)"
  "non_bg_context_penalty (details (step_entropy B dl st)) = non_bg_context_penalty (details st)"
  by (simp_all add: step_entropy_def weight_def Let_def)

lemma step_bg_abuse_obs:
  "score (step_bg_abuse dl st) = score st + weight (abuse_fired dl) 10"
  "has_brand (step_bg_abuse dl st) = has_brand st"
  "has_homoglyphs (step_bg_abuse dl st) = has_homoglyphs st"
  "has_typos (step_bg_abuse dl st) = has_typos st"
  "has_bg_context (step_bg_abuse dl st) = (abuse_fired dl \<or> has_bg_context st)"
  "direct_impersonation (details (step_bg_abuse dl st)) = direct_impersonation (details st)"
  "non_bg_context_penalty (details (step_bg_abuse dl st)) = non_bg_context_penalty (details st)"
  by (simp_all add: step_bg_abuse_def abuse_fired_def weight_def)

lemma step_bg_fallback_obs:
  "score (step_bg_fallback dl st) = score st"
  "has_brand (step_bg_fallback dl st) = has_brand st"
  "has_homoglyphs (step_bg_fallback dl st) = has_homoglyphs st"
  "has_typos (step_bg_fallback dl st) = has_typos st"
  "has_bg_context (step_bg_fallback dl st) = (has_bg_context st \<or> fallback_fired dl)"
  "direct_impersonation (details (step_bg_fallback dl st)) = direct_impersonation (details st)"
  "non_bg_context_penalty (details (step_bg_fallback dl st)) = non_bg_context_penalty (details st)"
  by (auto simp add: step_bg_fallback_def fallback_fired_def)

lemma step_direct_obs:
  "score (step_direct dl st) = score st + weight (direct_fired dl) 15"
  "has_brand (step_direct dl st) = has_brand st"
  "has_homoglyphs (step_direct dl st) = has_homoglyphs st"
  "has_typos (step_direct dl st) = has_typos st"
  "has_bg_context (step_direct dl st) = (direct_fired dl \<or> has_bg_context st)"
  "direct_impersonation (details (step_direct dl st)) =
     (direct_fired dl \<or> direct_impersonation (details st))"
  "non_bg_context_penalty (details (step_direct dl st)) = non_bg_context_penalty (details st)"
  by (auto simp add: step_direct_def direct_fired_def weight_def find_None_list_ex
      dest: find_Some_list_ex split: option.split)

lemma step_penalty_obs:
  "apply_penalty (step_penalty st) =
     ((has_brand st \<or> has_homoglyphs st \<or> has_typos st) \<and> \<not> has_bg_context st \<and>
      \<not> direct_impersonation (details st))"
  "score (step_penalty st) = score st - weight (apply_penalty (step_penalty st)) 20"
  "non_bg_context_penalty (details (step_penalty st)) =
     (apply_penalty (step_penalty st) \<or> non_bg_context_penalty (details st))"
  "direct_impersonation (details (step_penalty st)) = direct_impersonation (details st)"
  by (simp_all add: step_penalty_def weight_def Let_def)

lemmas step_obs = step_brand_obs step_homoglyphs_obs step_typos_obs step_free_hosting_obs
  step_suspicious_tld_obs step_geo_obs step_transaction_obs step_hyphens_obs step_numeric_obs
  step_stacking_obs step_entropy_obs step_bg_abuse_obs step_bg_fallback_obs step_direct_obs

lemma run_steps_penalty:
  "apply_penalty (run_steps B domain) =
     (brand_derived_fired B domain \<and>
      \<not> geo_fired (normalized B domain) \<and> \<not> fallback_fired (normalized B domain) \<and>
      \<not> abuse_fired (normalized B domain) \<and> \<not> direct_fired (normalized B domain))"
  unfolding run_steps_def Let_def step_penalty_obs(1) step_obs
  by (auto simp add: brand_derived_fired_def normalized_def initial_locals_def
      initial_details_def)

lemma run_steps_flag:
  "non_bg_context_penalty (details (run_steps B domain)) = apply_penalty (run_steps B domain)"
  unfolding run_steps_def Let_def step_penalty_obs(3) step_obs
  by (simp add: initial_locals_def initial_details_def)

lemma run_steps_direct:
  "direct_impersonation (details (run_steps B domain)) = direct_fired (normalized B domain)"
  unfolding run_steps_def Let_def step_penalty_obs(4) step_obs
  by (simp add: initial_locals_def initial_details_def normalized_def)

lemma run_steps_score:
  "score (run_steps B domain) =
     signal_sum B domain - weight (apply_penalty (run_steps B domain)) 20"
proof -
  have "score (run_steps B domain) =
          score (step_direct (normalized B domain) (step_bg_fallback (normalized B domain)
            (step_bg_abuse (normalized B domain) (step_entropy B (normalized B domain)
            (step_stacking (normalized B domain) (step_numeric B (normalized B domain)
            (step_hyphens (normalized B domain) (step_transaction (normalized B domain)
            (step_geo (normalized B domain) (step_suspicious_tld (normalized B domain)
            (step_free_hosting (normalized B domain) (step_typos B domain
            (step_homoglyphs B domain (step_brand B domain initial_locals))))))))))))))
          - weight (apply_penalty (run_steps B domain)) 20"
    unfolding run_steps_def Let_def normalized_def by (subst step_penalty_obs(2)) simp
  also have "\<dots> = signal_sum B domain - weight (apply_penalty (run_steps B domain)) 20"
    unfolding step_obs signal_sum_def Let_def by (simp add: initial_locals_def)
  finally show ?thesis .
qed

text \<open>
  C2: \<open>calculate_score\<close> subtracts the penalty of 20 exactly once, and does so if and
  only if a brand, homoglyph or typosquat match fired, none of the Bulgarian-context
  signals fired (geo indicator, \<open>bg\<close>/\<open>bulgaria\<close> substring, \<open>.bg-XX\<close> infix, direct
  impersonation), and the direct-impersonation pattern did not fire: the flag
  \<open>non_bg_context_penalty\<close> is exactly that condition, and the score is the clamped
  sum of the weights minus 20 when the flag is set.
\<close>

theorem penalty_once_iff:
  "non_bg_context_penalty (snd (calculate_score B domain)) =
     (brand_derived_fired B domain \<and>
      \<not> geo_fired (normalized B domain) \<and> \<not> fallback_fired (normalized B domain) \<and>
      \<not> abuse_fired (normalized B domain) \<and> \<not> direct_fired (normalized B domain)) \<and>
   fst (calculate_score B domain) =
     min (max (signal_sum B domain -
               weight (non_bg_context_penalty (snd (calculate_score B domain))) 20) 0) 100"
  by (simp add: calculate_score_def Let_def run_steps_flag run_steps_penalty run_steps_score)

text \<open>
  C1: for every domain string the score returned by \<open>calculate_score\<close> lies between
  0 and 100, whatever the weights add up to.
\<close>

theorem score_in_range:
  "0 \<le> fst (calculate_score B domain) \<and> fst (calculate_score B domain) \<le> 100"
  by (simp add: calculate_score_def Let_def)

lemma signal_sum_above_100:
  "signal_sum ascii_builtins (ustr ''econt-bg-tracking.web.app'') = 115"
  by code_simp

theorem score_in_range_witness:
  "0 \<le> fst (calculate_score ascii_builtins (ustr ''econt-bg-tracking.web.app'')) \<and>
   fst (calculate_score ascii_builtins (ustr ''econt-bg-tracking.web.app'')) \<le> 100 \<and>
   signal_sum ascii_builtins (ustr ''econt-bg-tracking.web.app'') = 115"
  using score_in_range [of ascii_builtins "ustr ''econt-bg-tracking.web.app''"]
    signal_sum_above_100
  by simp


theorem penalty_once_iff_witness:
  "non_bg_context_penalty (snd (calculate_score ascii_builtins (ustr ''speedy.tk''))) \<and>
   fst (calculate_score ascii_builtins (ustr ''speedy.tk'')) = 40"
proof -
  have rhs: "brand_derived_fired ascii_builtins (ustr ''speedy.tk'') \<and>
      \<not> geo_fired (normalized ascii_builtins (ustr ''speedy.tk'')) \<and>
      \<not> fallback_fired (normalized ascii_builtins (ustr ''speedy.tk'')) \<and>
      \<not> abuse_fired (normalized ascii_builtins (ustr ''speedy.tk'')) \<and>
      \<not> direct_fired (normalized ascii_builtins (ustr ''speedy.tk''))"
    by code_simp
  have sum: "signal_sum ascii_builtins (ustr ''speedy.tk'') = 60"
    by code_simp
  show ?thesis
    using penalty_once_iff [of ascii_builtins "ustr ''speedy.tk''"] rhs sum
    by (simp add: weight_def)
qed

text \<open>
  C7: \<open>calculate_score("econt-bg.tk")\<close> returns a score of at least 70 (it is 90: brand
  +40, suspicious TLD +20, geo indicator +15, direct impersonation +15), with the
  \<open>direct_impersonation\<close> flag set and no penalty. It holds for every \<open>str.lower\<close> that
  leaves the lower-case ASCII string as it is.
\<close>

theorem econt_bg_tk_score:
  assumes "str_lower B (ustr ''econt-bg.tk'') = ustr ''econt-bg.tk''"
  shows "calculate_score B (ustr ''econt-bg.tk'') =
           (90, initial_details\<lparr> brand_keywords := [ustr ''econt''],
                  geo_indicators := [ustr ''-bg''], suspicious_tld := Some (ustr ''.tk''),
                  direct_impersonation := True \<rparr>) \<and>
         70 \<le> fst (calculate_score B (ustr ''econt-bg.tk'')) \<and>
         direct_impersonation (snd (calculate_score B (ustr ''econt-bg.tk''))) \<and>
         \<not> non_bg_context_penalty (snd (calculate_score B (ustr ''econt-bg.tk'')))"
proof -
  have "calculate_score B (ustr ''econt-bg.tk'') =
           (90, initial_details\<lparr> brand_keywords := [ustr ''econt''],
                  geo_indicators := [ustr ''-bg''], suspicious_tld := Some (ustr ''.tk''),
                  direct_impersonation := True \<rparr>)"
    unfolding calculate_score_def run_steps_def step_brand_def step_homoglyphs_def
      step_typos_def contains_brand_impersonation_def detect_homoglyphs_def
      detect_typosquatting_def assms
    by code_simp
  then show ?thesis by (simp add: initial_details_def)
qed

theorem econt_bg_tk_score_witness:
  "str_lower ascii_builtins (ustr ''econt-bg.tk'') = ustr ''econt-bg.tk'' \<and>
   70 \<le> fst (calculate_score ascii_builtins (ustr ''econt-bg.tk'')) \<and>
   direct_impersonation (snd (calculate_score ascii_builtins (ustr ''econt-bg.tk''))) \<and>
   \<not> non_bg_context_penalty (snd (calculate_score ascii_builtins (ustr ''econt-bg.tk'')))"
proof -
  have h: "str_lower ascii_builtins (ustr ''econt-bg.tk'') = ustr ''econt-bg.tk''"
    by code_simp
  show ?thesis using econt_bg_tk_score [OF h] h by (simp add: initial_details_def)
qed

subsection \<open>A leading \<open>www.\<close>\<close>

lemma run_steps_normalized:
  "normalized B d1 = normalized B d2 \<Longrightarrow> run_steps B d1 = run_steps B d2"
  by (simp add: run_steps_def step_brand_def step_homoglyphs_def step_typos_def
      contains_brand_impersonation_def detect_homoglyphs_def detect_typosquatting_def
      normalized_def Let_def)

lemma normalized_www:
  assumes "str_lower B (ustr ''www.'' @ d) = ustr ''www.'' @ str_lower B d"
    and "\<not> startswith (str_lower B d) (ustr ''www.'')"
  shows "normalized B (ustr ''www.'' @ d) = normalized B d"
  using assms by (simp add: normalized_def strip_www_def startswith_def ustr_def)

text \<open>
  C10, as the code has it: the prefix is removed after lower-casing, so what must not
  start with \<open>www.\<close> is the lower-cased \<open>d\<close>. Then \<open>calculate_score("www." + d)\<close> returns
  the score and the details of \<open>calculate_score(d)\<close>, provided lower-casing
  \<open>"www." + d\<close> gives \<open>www.\<close> followed by the lower-cased \<open>d\<close>, as it does for every
  ASCII \<open>d\<close>.
\<close>

theorem www_prefix_invariant:
  assumes "str_lower B (ustr ''www.'' @ d) = ustr ''www.'' @ str_lower B d"
    and "\<not> startswith (str_lower B d) (ustr ''www.'')"
  shows "calculate_score B (ustr ''www.'' @ d) = calculate_score B d"
  using run_steps_normalized [OF normalized_www [OF assms]]
  by (simp add: calculate_score_def)

theorem www_prefix_invariant_witness:
  "str_lower ascii_builtins (ustr ''www.'' @ ustr ''a.b.tk'') =
     ustr ''www.'' @ str_lower ascii_builtins (ustr ''a.b.tk'') \<and>
   \<not> startswith (str_lower ascii_builtins (ustr ''a.b.tk'')) (ustr ''www.'') \<and>
   calculate_score ascii_builtins (ustr ''www.'' @ ustr ''a.b.tk'') =
     calculate_score ascii_builtins (ustr ''a.b.tk'')"
proof -
  have h1: "str_lower ascii_builtins (ustr ''www.'' @ ustr ''a.b.tk'') =
     ustr ''www.'' @ str_lower ascii_builtins (ustr ''a.b.tk'')"
    by code_simp
  have h2: "\<not> startswith (str_lower ascii_builtins (ustr ''a.b.tk'')) (ustr ''www.'')"
    by code_simp
  show ?thesis using www_prefix_invariant [OF h1 h2] h1 h2 by simp
qed

text \<open>
  As stated, with \<open>d\<close> itself not starting with \<open>www.\<close>, the property fails:
  \<open>WWW.a.b.tk\<close> does not start with \<open>www.\<close>, its score is 20, and the score of
  \<open>www.WWW.a.b.tk\<close> is 30 (four labels are left after one prefix is removed).
\<close>

theorem www_prefix_counterexample:
  "\<not> startswith (ustr ''WWW.a.b.tk'') (ustr ''www.'') \<and>
   fst (calculate_score ascii_builtins (ustr ''www.'' @ ustr ''WWW.a.b.tk'')) = 30 \<and>
   fst (calculate_score ascii_builtins (ustr ''WWW.a.b.tk'')) = 20"
  by code_simp

subsection \<open>Typosquatting\<close>

lemma typo_parts_append:
  "typo_parts brand parts detected = detected @ concat (map (typo_entries brand) parts)"
  by (induction parts arbitrary: detected) (auto simp add: typo_entries_def Let_def)

lemma typo_brands_append:
  "typo_brands brands parts detected =
     detected @ concat (map (\<lambda>brand. if length brand < 4 then []
                                      else concat (map (typo_entries brand) parts)) brands)"
  by (induction brands arbitrary: detected) (auto simp add: typo_parts_append)

lemma typo_entries_key:
  "map typo_key (typo_entries brand part) =
     (if typo_entries brand part = [] then [] else [(brand, part)])"
  by (simp add: typo_entries_def typo_key_def)

text \<open>A list has no duplicates exactly when nothing occurs in it twice.\<close>

lemma distinct_count_list: "distinct xs = (\<forall>x. count_list xs x \<le> 1)"
proof (induction xs)
  case Nil
  then show ?case by simp
next
  case (Cons a xs)
  show ?case
  proof
    assume d: "distinct (a # xs)"
    then have "a \<notin> set xs" and "\<forall>x. count_list xs x \<le> 1" using Cons.IH by simp_all
    then show "\<forall>x. count_list (a # xs) x \<le> 1" by simp
  next
    assume c: "\<forall>x. count_list (a # xs) x \<le> 1"
    have "count_list (a # xs) a \<le> 1" using c by blast
    then have "count_list xs a = 0" by simp
    then have na: "a \<notin> set xs" by (simp add: count_list_0_iff)
    have "\<forall>x. count_list xs x \<le> 1"
    proof
      fix x
      have "count_list xs x \<le> count_list (a # xs) x" by simp
      also have "\<dots> \<le> 1" using c by blast
      finally show "count_list xs x \<le> 1" .
    qed
    then show "distinct (a # xs)" using na Cons.IH by simp
  qed
qed

lemma entries_recorded:
  "(typo_entries brand part \<noteq> []) = (3 \<le> length part \<and> 0 < levenshtein_distance part brand \<and>
      levenshtein_distance part brand \<le> 2 \<and>
      \<bar>int (length part) - int (length brand)\<bar> \<le> 2 \<and> part \<noteq> brand)"
  by (simp add: typo_entries_def)

lemma count_keys_of_brand:
  "count_list (map typo_key (concat (map (typo_entries brand) parts))) (b, p) =
     (if b = brand \<and> typo_entries brand p \<noteq> [] then count_list parts p else 0)"
  by (induction parts) (auto simp add: typo_entries_key)

lemma count_keys_of_brands:
  "count_list (map typo_key (concat (map (\<lambda>brand. if length brand < 4 then []
          else concat (map (typo_entries brand) parts)) brands))) (b, p) =
     (if typo_recorded b p then count_list brands b * count_list parts p else 0)"
proof (induction brands)
  case Nil
  then show ?case by simp
next
  case (Cons a brands)
  show ?case
  proof (cases "length a < 4")
    case True
    then have "b = a \<Longrightarrow> \<not> typo_recorded b p" by (simp add: typo_recorded_def)
    then show ?thesis using True Cons.IH by auto
  next
    case False
    then show ?thesis
      using Cons.IH
      by (auto simp add: count_keys_of_brand typo_recorded_def entries_recorded)
  qed
qed

lemma count_list_filter:
  "count_list (filter P xs) x = (if P x then count_list xs x else 0)"
  by (induction xs) auto

lemma distinct_filter_count:
  assumes "distinct (filter P xs)" and "P x"
  shows "count_list xs x \<le> 1"
proof -
  have "count_list (filter P xs) x \<le> 1"
    using assms(1) distinct_count_list [of "filter P xs"] by blast
  then show ?thesis using assms(2) by (simp add: count_list_filter)
qed

text \<open>
  C6, as the code has it: the loops append one entry for every occurrence of a brand
  of length 4 or more in the brand list and every occurrence of a label in the domain
  that pass the test, without looking at what is already there. So a pair of a brand
  and a label that pass the test is in the list as many times as the brand occurs in
  the brand list times the label occurs among the labels, and a pair that does not
  pass is not in the list. The list has no two entries with the same brand and the
  same label exactly when no such product exceeds 1; it is so whenever the brands of
  length 4 or more are pairwise distinct and the labels of length 3 or more are.
\<close>

theorem typo_pairs_distinct:
  "snd (detect_typosquatting B domain brands) =
     concat (map (\<lambda>b. if length b < 4 then []
                       else concat (map (typo_entries b) (re_split (normalized B domain))))
               brands) \<and>
   count_list (map typo_key (snd (detect_typosquatting B domain brands))) (brand, label) =
     (if typo_recorded brand label
      then count_list brands brand * count_list (re_split (normalized B domain)) label
      else 0) \<and>
   distinct (map typo_key (snd (detect_typosquatting B domain brands))) =
     (\<forall>b p. typo_recorded b p \<longrightarrow>
        count_list brands b * count_list (re_split (normalized B domain)) p \<le> 1) \<and>
   (distinct (filter (\<lambda>b. 4 \<le> length b) brands) \<and>
    distinct (filter (\<lambda>p. 3 \<le> length p) (re_split (normalized B domain))) \<longrightarrow>
    distinct (map typo_key (snd (detect_typosquatting B domain brands))))"
proof -
  let ?parts = "re_split (normalized B domain)"
  let ?result = "snd (detect_typosquatting B domain brands)"
  have shape: "?result =
     concat (map (\<lambda>b. if length b < 4 then [] else concat (map (typo_entries b) ?parts)) brands)"
    unfolding normalized_def
    by (simp add: detect_typosquatting_def Let_def typo_brands_append)
  have count: "\<And>b p. count_list (map typo_key ?result) (b, p) =
     (if typo_recorded b p then count_list brands b * count_list ?parts p else 0)"
    unfolding shape by (rule count_keys_of_brands)
  have iff: "distinct (map typo_key ?result) =
     (\<forall>b p. typo_recorded b p \<longrightarrow> count_list brands b * count_list ?parts p \<le> 1)"
    unfolding distinct_count_list split_paired_All count by auto
  have suff: "distinct (map typo_key ?result)"
    if d: "distinct (filter (\<lambda>b. 4 \<le> length b) brands) \<and>
           distinct (filter (\<lambda>p. 3 \<le> length p) ?parts)"
  proof -
    have "count_list brands b * count_list ?parts p \<le> 1" if r: "typo_recorded b p" for b p
    proof -
      have "count_list brands b \<le> 1"
        using d r by (intro distinct_filter_count [of "\<lambda>b. 4 \<le> length b"])
          (simp_all add: typo_recorded_def)
      moreover have "count_list ?parts p \<le> 1"
        using d r by (intro distinct_filter_count [of "\<lambda>p. 3 \<le> length p"])
          (simp_all add: typo_recorded_def)
      ultimately have "count_list brands b * count_list ?parts p \<le> 1 * 1"
        by (rule mult_le_mono)
      then show ?thesis by simp
    qed
    then show ?thesis unfolding iff by blast
  qed
  show ?thesis using shape count [of brand label] iff suff by blast
qed

text \<open>
  Which matches are recorded: exactly those of a brand of length 4 or more and a part
  of length 3 or more at distance 1 or 2, with lengths at most 2 apart.
\<close>

lemma typo_match_iff:
  "e \<in> set (snd (detect_typosquatting B domain brands)) =
     (\<exists>brand\<in>set brands. \<exists>part\<in>set (re_split (normalized B domain)).
        4 \<le> length brand \<and> 3 \<le> length part \<and>
        0 < levenshtein_distance part brand \<and> levenshtein_distance part brand \<le> 2 \<and>
        \<bar>int (length part) - int (length brand)\<bar> \<le> 2 \<and> part \<noteq> brand \<and>
        e = \<lparr> t_brand = brand, t_typo = part, t_distance = levenshtein_distance part brand,
              t_type = classify_typo_type brand part \<rparr>)"
  unfolding normalized_def
  by (auto simp add: detect_typosquatting_def Let_def typo_brands_append
      typo_entries_def split: if_splits)

text \<open>
  A domain with a label that occurs twice, \<open>bg\<close>, and two matches: the short label is
  never compared, and the two pairs are distinct.
\<close>

lemma typo_two_matches:
  "map typo_key (snd (detect_typosquatting ascii_builtins (ustr ''spedy-bg.bg-econnt.cfd'')
      BRAND_KEYWORDS)) =
     [(ustr ''econt'', ustr ''econnt''), (ustr ''speedy'', ustr ''spedy'')] \<and>
   re_split (normalized ascii_builtins (ustr ''spedy-bg.bg-econnt.cfd'')) =
     [ustr ''spedy'', ustr ''bg'', ustr ''bg'', ustr ''econnt'', ustr ''cfd'']"
  by code_simp

theorem typo_pairs_distinct_witness:
  "distinct (filter (\<lambda>b. 4 \<le> length b) BRAND_KEYWORDS) \<and>
   distinct (filter (\<lambda>p. 3 \<le> length p)
     (re_split (normalized ascii_builtins (ustr ''spedy-bg.bg-econnt.cfd'')))) \<and>
   \<not> distinct (re_split (normalized ascii_builtins (ustr ''spedy-bg.bg-econnt.cfd''))) \<and>
   map typo_key (snd (detect_typosquatting ascii_builtins (ustr ''spedy-bg.bg-econnt.cfd'')
      BRAND_KEYWORDS)) =
     [(ustr ''econt'', ustr ''econnt''), (ustr ''speedy'', ustr ''spedy'')] \<and>
   distinct (map typo_key (snd (detect_typosquatting ascii_builtins
      (ustr ''spedy-bg.bg-econnt.cfd'') BRAND_KEYWORDS)))"
proof -
  have h1: "distinct (filter (\<lambda>b. 4 \<le> length b) BRAND_KEYWORDS)"
    by code_simp
  have h2: "distinct (filter (\<lambda>p. 3 \<le> length p)
     (re_split (normalized ascii_builtins (ustr ''spedy-bg.bg-econnt.cfd''))))"
    by code_simp
  have h3: "\<not> distinct (re_split (normalized ascii_builtins (ustr ''spedy-bg.bg-econnt.cfd'')))"
    by code_simp
  have "distinct (map typo_key (snd (detect_typosquatting ascii_builtins
      (ustr ''spedy-bg.bg-econnt.cfd'') BRAND_KEYWORDS)))"
    using typo_pairs_distinct [of ascii_builtins "ustr ''spedy-bg.bg-econnt.cfd''"
        BRAND_KEYWORDS] h1 h2
    by blast
  then show ?thesis using h1 h2 h3 typo_two_matches by blast
qed

text \<open>
  As stated, for every domain, the property fails: a label of length 3 or more that
  occurs twice in the domain is recorded twice for the brand it resembles.
\<close>

lemma typo_pairs_repeated_label:
  "map typo_key
     (snd (detect_typosquatting ascii_builtins (ustr ''spedy.spedy.cfd'') BRAND_KEYWORDS)) =
   [(ustr ''speedy'', ustr ''spedy''), (ustr ''speedy'', ustr ''spedy'')]"
  by code_simp

theorem typo_pairs_counterexample:
  "\<not> distinct (map typo_key
     (snd (detect_typosquatting ascii_builtins (ustr ''spedy.spedy.cfd'') BRAND_KEYWORDS)))"
  by (simp add: typo_pairs_repeated_label)

text \<open>
  The example of C5: one match for \<open>spedy.bg-pv.cfd\<close>, brand \<open>speedy\<close>, distance 1, a
  missing character.
\<close>

lemma typosquat_example:
  "detect_typosquatting ascii_builtins (ustr ''spedy.bg-pv.cfd'') [ustr ''speedy''] =
     (True, [\<lparr> t_brand = ustr ''speedy'', t_typo = ustr ''spedy'', t_distance = 1,
               t_type = missing_char \<rparr>])"
  by code_simp

text \<open>
  C5, the edit kind: \<open>classify_typo_type\<close> looks for any index \<open>i\<close> with
  \<open>original[i] = typo[i+1]\<close> and \<open>original[i+1] = typo[i]\<close>, which an unchanged double
  letter satisfies. For \<open>xpeedz.tk\<close> and the brand \<open>speedy\<close> the strings differ at the
  positions 0 and 5 only, which are not adjacent, so the kind is a substitution as
  the specification words it; the code records \<open>swapped_chars\<close>.
\<close>

theorem typo_kind_double_letter:
  "snd (detect_typosquatting ascii_builtins (ustr ''xpeedz.tk'') BRAND_KEYWORDS) =
     [\<lparr> t_brand = ustr ''speedy'', t_typo = ustr ''xpeedz'', t_distance = 2,
        t_type = swapped_chars \<rparr>] \<and>
   differing_positions (ustr ''speedy'') (ustr ''xpeedz'') = [0, 5] \<and>
   typo_type_claimed (ustr ''speedy'') (ustr ''xpeedz'') = substitution"
  by code_simp

subsection \<open>Brand matching\<close>

lemma pattern_loop_list_ex: "pattern_loop ps s = list_ex (\<lambda>p. p s) ps"
  by (induction ps) auto

lemma brand_loop_filter:
  "brand_loop brands s matched =
     matched @ filter (\<lambda>brand. pattern_loop (brand_patterns brand) s) brands"
  by (induction brands arbitrary: matched) auto

lemma ustr_dot: "ustr ''.'' = [46]" and ustr_hyphen: "ustr ''-'' = [45]"
  by (simp_all add: ustr_def)

lemma patterns_unfold:
  "pattern_loop (brand_patterns b) s =
     (prefix (b @ [46]) s \<or> prefix (b @ [45]) s \<or> s = b \<or> s = b @ [10] \<or>
      sublist ([46] @ b @ [46]) s \<or> sublist ([46] @ b @ [45]) s \<or>
      suffix ([46] @ b) s \<or> suffix ([46] @ b @ [10]) s \<or>
      sublist ([45] @ b @ [46]) s \<or> sublist ([45] @ b @ [45]) s \<or>
      suffix ([45] @ b) s \<or> suffix ([45] @ b @ [10]) s)"
  unfolding pattern_loop_list_ex brand_patterns_def
  by (auto simp add: search_from_start_def search_whole_def search_literal_def
      search_to_end_def startswith_def endswith_def contains_def ustr_dot ustr_hyphen)

lemma patterns_imp_bounded:
  assumes "pattern_loop (brand_patterns b) s"
  shows "bounded_occurrence_nl b s"
proof -
  have w: "\<And>before after. s = before @ b @ after \<Longrightarrow>
      (before = [] \<or> is_separator (last before)) \<Longrightarrow>
      (after = [] \<or> after = [10] \<or> is_separator (hd after)) \<Longrightarrow> bounded_occurrence_nl b s"
    unfolding bounded_occurrence_nl_def by blast
  from assms consider
      (p1) "prefix (b @ [46]) s" | (p2) "prefix (b @ [45]) s" | (p3) "s = b" | (p3n) "s = b @ [10]"
    | (p4) "sublist ([46] @ b @ [46]) s" | (p5) "sublist ([46] @ b @ [45]) s"
    | (p6) "suffix ([46] @ b) s" | (p6n) "suffix ([46] @ b @ [10]) s"
    | (p7) "sublist ([45] @ b @ [46]) s" | (p8) "sublist ([45] @ b @ [45]) s"
    | (p9) "suffix ([45] @ b) s" | (p9n) "suffix ([45] @ b @ [10]) s"
    unfolding patterns_unfold by blast
  then show ?thesis
  proof cases
    case p1
    then obtain zs where "s = [] @ b @ (46 # zs)" by (auto simp add: prefix_def)
    then show ?thesis by (rule w) (simp_all add: is_separator_def)
  next
    case p2
    then obtain zs where "s = [] @ b @ (45 # zs)" by (auto simp add: prefix_def)
    then show ?thesis by (rule w) (simp_all add: is_separator_def)
  next
    case p3
    then have "s = [] @ b @ []" by simp
    then show ?thesis by (rule w) simp_all
  next
    case p3n
    then have "s = [] @ b @ [10]" by simp
    then show ?thesis by (rule w) simp_all
  next
    case p4
    then obtain ps ss where "s = (ps @ [46]) @ b @ (46 # ss)" by (auto simp add: sublist_def)
    then show ?thesis by (rule w) (simp_all add: is_separator_def)
  next
    case p5
    then obtain ps ss where "s = (ps @ [46]) @ b @ (45 # ss)" by (auto simp add: sublist_def)
    then show ?thesis by (rule w) (simp_all add: is_separator_def)
  next
    case p6
    then obtain ps where "s = (ps @ [46]) @ b @ []" by (auto simp add: suffix_def)
    then show ?thesis by (rule w) (simp_all add: is_separator_def)
  next
    case p6n
    then obtain ps where "s = (ps @ [46]) @ b @ [10]" by (auto simp add: suffix_def)
    then show ?thesis by (rule w) (simp_all add: is_separator_def)
  next
    case p7
    then obtain ps ss where "s = (ps @ [45]) @ b @ (46 # ss)" by (auto simp add: sublist_def)
    then show ?thesis by (rule w) (simp_all add: is_separator_def)
  next
    case p8
    then obtain ps ss where "s = (ps @ [45]) @ b @ (45 # ss)" by (auto simp add: sublist_def)
    then show ?thesis by (rule w) (simp_all add: is_separator_def)
  next
    case p9
    then obtain ps where "s = (ps @ [45]) @ b @ []" by (auto simp add: suffix_def)
    then show ?thesis by (rule w) (simp_all add: is_separator_def)
  next
    case p9n
    then obtain ps where "s = (ps @ [45]) @ b @ [10]" by (auto simp add: suffix_def)
    then show ?thesis by (rule w) (simp_all add: is_separator_def)
  qed
qed

lemma bounded_imp_patterns:
  assumes "bounded_occurrence_nl b s"
  shows "pattern_loop (brand_patterns b) s"
proof -
  from assms obtain before after where s: "s = before @ b @ after"
    and l: "before = [] \<or> is_separator (last before)"
    and r: "after = [] \<or> after = [10] \<or> is_separator (hd after)"
    unfolding bounded_occurrence_nl_def by blast
  from r consider (e) "after = []" | (n) "after = [10]"
    | (d) as where "after = 46 # as" | (h) as where "after = 45 # as"
    by (cases after) (auto simp add: is_separator_def)
  note right = this
  from l consider (s0) "before = []" | (sd) bs where "before = bs @ [46]"
    | (sh) bs where "before = bs @ [45]"
    by (cases before rule: rev_cases) (auto simp add: is_separator_def)
  then show ?thesis
  proof cases
    case s0
    from right show ?thesis
      by cases (simp_all add: patterns_unfold s s0)
  next
    case sd
    from right show ?thesis
    proof cases
      case e
      have "suffix ([46] @ b) s" unfolding suffix_def s sd e by simp
      then show ?thesis by (simp add: patterns_unfold)
    next
      case n
      have "suffix ([46] @ b @ [10]) s" unfolding suffix_def s sd n by simp
      then show ?thesis by (simp add: patterns_unfold)
    next
      case d
      have "s = bs @ ([46] @ b @ [46]) @ as" by (simp add: s sd d)
      then have "sublist ([46] @ b @ [46]) s" unfolding sublist_def by blast
      then show ?thesis by (simp add: patterns_unfold)
    next
      case h
      have "s = bs @ ([46] @ b @ [45]) @ as" by (simp add: s sd h)
      then have "sublist ([46] @ b @ [45]) s" unfolding sublist_def by blast
      then show ?thesis by (simp add: patterns_unfold)
    qed
  next
    case sh
    from right show ?thesis
    proof cases
      case e
      have "suffix ([45] @ b) s" unfolding suffix_def s sh e by simp
      then show ?thesis by (simp add: patterns_unfold)
    next
      case n
      have "suffix ([45] @ b @ [10]) s" unfolding suffix_def s sh n by simp
      then show ?thesis by (simp add: patterns_unfold)
    next
      case d
      have "s = bs @ ([45] @ b @ [46]) @ as" by (simp add: s sh d)
      then have "sublist ([45] @ b @ [46]) s" unfolding sublist_def by blast
      then show ?thesis by (simp add: patterns_unfold)
    next
      case h
      have "s = bs @ ([45] @ b @ [45]) @ as" by (simp add: s sh h)
      then have "sublist ([45] @ b @ [45]) s" unfolding sublist_def by blast
      then show ?thesis by (simp add: patterns_unfold)
    qed
  qed
qed

lemma patterns_iff_bounded:
  "pattern_loop (brand_patterns b) s = bounded_occurrence_nl b s"
  using patterns_imp_bounded bounded_imp_patterns by blast

lemma bounded_nl_no_newline:
  assumes "\<not> endswith s [10]"
  shows "bounded_occurrence_nl b s = bounded_occurrence b s"
proof -
  have "\<And>before. s \<noteq> before @ b @ [10]"
    using assms by (auto simp add: endswith_def suffix_def)
  then show ?thesis
    unfolding bounded_occurrence_nl_def bounded_occurrence_def by blast
qed

text \<open>A split never gives the empty list, so \<open>first_label\<close> always finds a label.\<close>

lemma split_on_nonempty: "split_on sep s \<noteq> []"
  by (induction s) (auto split: list.splits)

lemma split_on_first_separator:
  "\<forall>c\<in>set tw. \<not> sep c \<Longrightarrow> sep c \<Longrightarrow>
   split_on sep (tw @ c # rest) = tw # split_on sep rest"
  by (induction tw) auto

lemma split_on_no_separator:
  "\<forall>c\<in>set tw. \<not> sep c \<Longrightarrow> split_on sep tw = [tw]"
  by (induction tw) auto

text \<open>Every string is a separator-free run, alone or followed by a separator.\<close>

lemma first_run_cases:
  obtains (whole) "\<forall>c\<in>set s. \<not> sep c"
  | (cut) tw c rest where "s = tw @ c # rest" "\<forall>c\<in>set tw. \<not> sep c" "sep c"
proof (cases "\<forall>c\<in>set s. \<not> sep c")
  case True
  then show ?thesis by (rule whole)
next
  case False
  then obtain tw c rest where "s = tw @ c # rest" "sep c" "\<forall>x\<in>set tw. \<not> sep x"
    using split_list_first_prop [of s sep] by blast
  then show ?thesis using cut by blast
qed


lemma label_imp_bounded:
  "b \<in> set (split_on is_separator s) \<Longrightarrow> bounded_occurrence b s"
proof (induction s rule: length_induct)
  case (1 s)
  show ?case
  proof (cases s "is_separator" rule: first_run_cases)
    case whole
    then have "b = s" using "1.prems" by (simp add: split_on_no_separator)
    then have "s = [] @ b @ []" by simp
    then show ?thesis unfolding bounded_occurrence_def by blast
  next
    case (cut tw c rest)
    then have "b = tw \<or> b \<in> set (split_on is_separator rest)"
      using "1.prems" by (simp add: split_on_first_separator)
    then show ?thesis
    proof
      assume "b = tw"
      then have "s = [] @ b @ (c # rest)" using cut(1) by simp
      moreover have "is_separator (hd (c # rest))" using cut(3) by simp
      ultimately show ?thesis unfolding bounded_occurrence_def by blast
    next
      assume "b \<in> set (split_on is_separator rest)"
      moreover have "length rest < length s" using cut(1) by simp
      ultimately have "bounded_occurrence b rest" using "1.IH" by blast
      then obtain before after where r: "rest = before @ b @ after"
        and l: "before = [] \<or> is_separator (last before)"
        and a: "after = [] \<or> is_separator (hd after)"
        unfolding bounded_occurrence_def by blast
      have "s = (tw @ c # before) @ b @ after" using cut(1) r by simp
      moreover have "is_separator (last (tw @ c # before))" using l cut(3) by auto
      ultimately show ?thesis unfolding bounded_occurrence_def using a by blast
    qed
  qed
qed

lemma bounded_imp_label:
  "\<lbrakk>bounded_occurrence b s; \<forall>c\<in>set b. \<not> is_separator c\<rbrakk>
   \<Longrightarrow> b \<in> set (split_on is_separator s)"
proof (induction s rule: length_induct)
  case (1 s)
  from "1.prems"(1) obtain before after where s: "s = before @ b @ after"
    and l: "before = [] \<or> is_separator (last before)"
    and a: "after = [] \<or> is_separator (hd after)"
    unfolding bounded_occurrence_def by blast
  show ?case
  proof (cases "before = []")
    case True
    show ?thesis
    proof (cases after)
      case Nil
      then show ?thesis using s True "1.prems"(2) by (simp add: split_on_no_separator)
    next
      case (Cons x xs)
      then have "is_separator x" using a by simp
      then have "split_on is_separator (b @ x # xs) = b # split_on is_separator xs"
        using "1.prems"(2) by (simp add: split_on_first_separator)
      then show ?thesis using s True Cons by simp
    qed
  next
    case False
    then have sl: "is_separator (last before)" using l by simp
    show ?thesis
    proof (cases before "is_separator" rule: first_run_cases)
      case whole
      then show ?thesis using sl False by simp
    next
      case (cut tw c before')
      have last': "before' = [] \<or> is_separator (last before')"
        using sl cut(1) by (cases "before' = []") simp_all
      have bo: "bounded_occurrence b (before' @ b @ after)"
        unfolding bounded_occurrence_def using last' a by blast
      have "length (before' @ b @ after) < length s" using s cut(1) by simp
      then have "b \<in> set (split_on is_separator (before' @ b @ after))"
        using "1.IH" bo "1.prems"(2) by blast
      moreover have "split_on is_separator s =
          tw # split_on is_separator (before' @ b @ after)"
        using split_on_first_separator [OF cut(2) cut(3), of "before' @ b @ after"] s cut(1)
        by simp
      ultimately show ?thesis by simp
    qed
  qed
qed

lemma label_iff_bounded:
  "\<forall>c\<in>set b. \<not> is_separator c \<Longrightarrow>
   (b \<in> set (re_split s)) = bounded_occurrence b s"
  unfolding re_split_def using label_imp_bounded bounded_imp_label by blast

lemma brands_checked:
  "list_all (\<lambda>brand. brand = ustr ''bg-post'' \<or> list_all (\<lambda>c. \<not> is_separator c) brand)
     BRAND_KEYWORDS"
  by code_simp

lemma brands_separator_free:
  assumes "brand \<in> set BRAND_KEYWORDS" and "brand \<noteq> ustr ''bg-post''"
  shows "\<forall>c\<in>set brand. \<not> is_separator c"
proof -
  have "brand = ustr ''bg-post'' \<or> list_all (\<lambda>c. \<not> is_separator c) brand"
    using brands_checked assms(1) unfolding list_all_iff by blast
  then show ?thesis using assms(2) by (simp add: list_all_iff)
qed

lemma reported_iff_patterns:
  "(brand \<in> set (snd (contains_brand_impersonation B domain))) =
     (brand \<in> set BRAND_KEYWORDS \<and> pattern_loop (brand_patterns brand) (normalized B domain))"
  by (simp add: contains_brand_impersonation_def Let_def brand_loop_filter normalized_def)

lemma reported_iff_bounded_nl:
  "brand \<in> set BRAND_KEYWORDS \<Longrightarrow>
   (brand \<in> set (snd (contains_brand_impersonation B domain))) =
     bounded_occurrence_nl brand (normalized B domain)"
  by (simp add: reported_iff_patterns patterns_iff_bounded)

text \<open>
  C3, as the code has it. The patterns look for the brand between boundaries; they do
  not split the domain. For a domain whose lower-cased, \<open>www.\<close>-stripped form does not
  end with a line feed and every registered brand, the brand is reported if and only
  if it occurs bounded on both sides by the start or end of the string, a dot or a
  hyphen. For every registered brand but \<open>bg-post\<close>, the only one with a separator in
  it, that is the same as being one of the labels \<open>re.split\<close> gives. The two examples
  hold for every \<open>str.lower\<close> that leaves the lower-case strings as they are.
\<close>

theorem brand_reported_iff_bounded:
  assumes "brand \<in> set BRAND_KEYWORDS" and "\<not> endswith (normalized B domain) [10]"
  shows "(brand \<in> set (snd (contains_brand_impersonation B domain))) =
           bounded_occurrence brand (normalized B domain) \<and>
         (brand \<noteq> ustr ''bg-post'' \<longrightarrow>
            (brand \<in> set (snd (contains_brand_impersonation B domain))) =
              (brand \<in> set (re_split (normalized B domain)))) \<and>
         (str_lower B (ustr ''content.example.cfd'') = ustr ''content.example.cfd'' \<longrightarrow>
            contains_brand_impersonation B (ustr ''content.example.cfd'') = (False, [])) \<and>
         (str_lower B (ustr ''speedy-bg.cfd'') = ustr ''speedy-bg.cfd'' \<longrightarrow>
            contains_brand_impersonation B (ustr ''speedy-bg.cfd'') = (True, [ustr ''speedy'']))"
proof (intro conjI impI)
  show b: "(brand \<in> set (snd (contains_brand_impersonation B domain))) =
           bounded_occurrence brand (normalized B domain)"
    using assms by (simp add: reported_iff_bounded_nl bounded_nl_no_newline)
  assume "brand \<noteq> ustr ''bg-post''"
  then have "\<forall>c\<in>set brand. \<not> is_separator c"
    using assms(1) by (rule brands_separator_free [rotated])
  then show "(brand \<in> set (snd (contains_brand_impersonation B domain))) =
              (brand \<in> set (re_split (normalized B domain)))"
    using b by (simp add: label_iff_bounded)
next
  assume h: "str_lower B (ustr ''content.example.cfd'') = ustr ''content.example.cfd''"
  show "contains_brand_impersonation B (ustr ''content.example.cfd'') = (False, [])"
    unfolding contains_brand_impersonation_def h by code_simp
next
  assume h: "str_lower B (ustr ''speedy-bg.cfd'') = ustr ''speedy-bg.cfd''"
  show "contains_brand_impersonation B (ustr ''speedy-bg.cfd'') = (True, [ustr ''speedy''])"
    unfolding contains_brand_impersonation_def h by code_simp
qed

theorem brand_reported_iff_bounded_witness:
  "ustr ''speedy'' \<in> set BRAND_KEYWORDS \<and>
   \<not> endswith (normalized ascii_builtins (ustr ''speedy-bg.cfd'')) [10] \<and>
   ustr ''speedy'' \<in> set (snd (contains_brand_impersonation ascii_builtins (ustr ''speedy-bg.cfd''))) \<and>
   bounded_occurrence (ustr ''speedy'') (normalized ascii_builtins (ustr ''speedy-bg.cfd'')) \<and>
   ustr ''speedy'' \<in> set (re_split (normalized ascii_builtins (ustr ''speedy-bg.cfd''))) \<and>
   contains_brand_impersonation ascii_builtins (ustr ''content.example.cfd'') = (False, []) \<and>
   contains_brand_impersonation ascii_builtins (ustr ''speedy-bg.cfd'') = (True, [ustr ''speedy''])"
proof -
  have h1: "ustr ''speedy'' \<in> set BRAND_KEYWORDS" by code_simp
  have h2: "\<not> endswith (normalized ascii_builtins (ustr ''speedy-bg.cfd'')) [10]" by code_simp
  have h3: "str_lower ascii_builtins (ustr ''content.example.cfd'') = ustr ''content.example.cfd''"
    by code_simp
  have h4: "str_lower ascii_builtins (ustr ''speedy-bg.cfd'') = ustr ''speedy-bg.cfd''"
    by code_simp
  have h5: "ustr ''speedy'' \<noteq> ustr ''bg-post''" by code_simp
  have ex: "contains_brand_impersonation ascii_builtins (ustr ''speedy-bg.cfd'') =
      (True, [ustr ''speedy''])"
    using brand_reported_iff_bounded [OF h1 h2] h4 by blast
  show ?thesis
    using brand_reported_iff_bounded [OF h1 h2] h1 h2 h3 h4 h5 ex by simp
qed

text \<open>
  As stated, with whole labels for every registered brand, the property fails:
  \<open>bg-post\<close> is reported for \<open>bg-post.cfd\<close>, whose labels are \<open>bg\<close>, \<open>post\<close> and \<open>cfd\<close>.
\<close>

theorem brand_label_counterexample:
  "ustr ''bg-post'' \<in> set BRAND_KEYWORDS \<and>
   ustr ''bg-post'' \<in> set (snd (contains_brand_impersonation ascii_builtins (ustr ''bg-post.cfd''))) \<and>
   ustr ''bg-post'' \<notin> set (re_split (strip_www (str_lower ascii_builtins (ustr ''bg-post.cfd''))))"
  by code_simp

text \<open>
  A line feed at the end: \<open>$\<close> matches before it, so \<open>speedy\<close> is reported although the
  only label is \<open>speedy\<close> followed by the line feed.
\<close>

lemma trailing_newline_example:
  "contains_brand_impersonation ascii_builtins (ustr ''speedy'' @ [10]) = (True, [ustr ''speedy''])
   \<and> re_split (strip_www (str_lower ascii_builtins (ustr ''speedy'' @ [10]))) = [ustr ''speedy'' @ [10]]"
  by code_simp

subsection \<open>Homoglyphs\<close>

lemma homoglyph_parts_find:
  "homoglyph_parts brand parts = find (homoglyph_hit brand) parts"
  by (induction parts) (auto simp add: homoglyph_hit_def Let_def)

lemma homoglyph_brands_map_filter:
  "homoglyph_brands dl brands found =
     found @ List.map_filter (\<lambda>brand. find (homoglyph_hit brand) (re_split dl)) brands"
  by (induction brands arbitrary: found)
     (auto simp add: homoglyph_parts_find List.map_filter_simps(1) Let_def split: option.split)

lemma detect_homoglyphs_map_filter:
  "snd (detect_homoglyphs B domain brands) =
     List.map_filter (\<lambda>brand. find (homoglyph_hit brand) (re_split (normalized B domain))) brands"
  by (simp add: detect_homoglyphs_def Let_def homoglyph_brands_map_filter normalized_def)

lemma map_filter_member:
  "(x \<in> set (List.map_filter f xs)) = list_ex (\<lambda>a. f a = Some x) xs"
  by (induction xs) (auto simp add: List.map_filter_simps split: option.splits)

lemma map_filter_nonempty:
  "(List.map_filter f xs \<noteq> []) = list_ex (\<lambda>a. f a \<noteq> None) xs"
  by (induction xs) (auto simp add: List.map_filter_simps split: option.splits)

lemma find_Some_ex: "(\<exists>y. find P xs = Some y) = list_ex P xs"
  by (induction xs) auto

lemma hit_imp_claimed: "homoglyph_hit brand part \<Longrightarrow> homoglyph_hit_claimed brand part"
  by (auto simp add: homoglyph_hit_def homoglyph_hit_claimed_def)

lemma reported_label_hit_claimed:
  assumes "label \<in> set (snd (detect_homoglyphs B domain brands))"
  shows "list_ex (\<lambda>brand. homoglyph_hit_claimed brand label) brands"
proof -
  from assms obtain brand where b: "brand \<in> set brands"
    and f: "find (homoglyph_hit brand) (re_split (normalized B domain)) = Some label"
    by (auto simp add: detect_homoglyphs_map_filter map_filter_member list_ex_iff)
  from f have "homoglyph_hit brand label" by (auto simp add: find_Some_iff)
  then show ?thesis using b hit_imp_claimed by (auto simp add: list_ex_iff)
qed

text \<open>
  C4, as the code has it. For every brand the loop over the parts stops at the first
  hit, so a label is reported exactly when, for some brand, it is the first label of
  the lower-cased, \<open>www.\<close>-stripped domain that passes the test of the loop body:
  length 3 or more, within 2 of the brand's length, and either a non-ASCII character
  with a normal form that is the brand or has length 4 or more and occurs in the
  brand, or a \<open>0\<close> and equality with the brand once \<open>0\<close> is replaced by \<open>o\<close>. The
  detector fires exactly when some label passes the test for some brand. The two
  examples hold for every \<open>str.lower\<close> that leaves the strings as they are.
\<close>

theorem homoglyph_first_hit:
  "(label \<in> set (snd (detect_homoglyphs B domain brands))) =
     list_ex (\<lambda>brand. find (homoglyph_hit brand) (re_split (normalized B domain)) = Some label)
       brands \<and>
   fst (detect_homoglyphs B domain brands) =
     list_ex (\<lambda>brand. list_ex (homoglyph_hit brand) (re_split (normalized B domain))) brands \<and>
   (str_lower B (ustr ''ec0nt-pay.tk'') = ustr ''ec0nt-pay.tk'' \<longrightarrow>
      detect_homoglyphs B (ustr ''ec0nt-pay.tk'') [ustr ''econt''] = (True, [ustr ''ec0nt''])) \<and>
   (str_lower B cyrillic_econt_cfd = cyrillic_econt_cfd \<longrightarrow>
      detect_homoglyphs B cyrillic_econt_cfd [ustr ''econt''] =
        (True, [[1077, 1089, 1086, 110, 116]]))"
proof (intro conjI impI)
  show "(label \<in> set (snd (detect_homoglyphs B domain brands))) =
     list_ex (\<lambda>brand. find (homoglyph_hit brand) (re_split (normalized B domain)) = Some label)
       brands"
    by (simp add: detect_homoglyphs_map_filter map_filter_member)
  have "fst (detect_homoglyphs B domain brands) = (snd (detect_homoglyphs B domain brands) \<noteq> [])"
    by (simp add: detect_homoglyphs_def Let_def)
  then show "fst (detect_homoglyphs B domain brands) =
     list_ex (\<lambda>brand. list_ex (homoglyph_hit brand) (re_split (normalized B domain))) brands"
    by (simp add: detect_homoglyphs_map_filter map_filter_nonempty find_Some_ex)
next
  assume h: "str_lower B (ustr ''ec0nt-pay.tk'') = ustr ''ec0nt-pay.tk''"
  show "detect_homoglyphs B (ustr ''ec0nt-pay.tk'') [ustr ''econt''] = (True, [ustr ''ec0nt''])"
    unfolding detect_homoglyphs_def h by code_simp
next
  assume h: "str_lower B cyrillic_econt_cfd = cyrillic_econt_cfd"
  show "detect_homoglyphs B cyrillic_econt_cfd [ustr ''econt''] =
        (True, [[1077, 1089, 1086, 110, 116]])"
    unfolding detect_homoglyphs_def h by code_simp
qed



theorem homoglyph_first_hit_witness:
  "str_lower ascii_builtins (ustr ''ec0nt-pay.tk'') = ustr ''ec0nt-pay.tk'' \<and>
   str_lower ascii_builtins cyrillic_econt_cfd = cyrillic_econt_cfd \<and>
   detect_homoglyphs ascii_builtins (ustr ''ec0nt-pay.tk'') [ustr ''econt''] =
     (True, [ustr ''ec0nt'']) \<and>
   detect_homoglyphs ascii_builtins cyrillic_econt_cfd [ustr ''econt''] =
     (True, [[1077, 1089, 1086, 110, 116]]) \<and>
   ustr ''ec0nt'' \<in> set (snd (detect_homoglyphs ascii_builtins (ustr ''ec0nt-pay.tk'') BRAND_KEYWORDS))"
proof -
  have h1: "str_lower ascii_builtins (ustr ''ec0nt-pay.tk'') = ustr ''ec0nt-pay.tk''"
    by code_simp
  have h2: "str_lower ascii_builtins cyrillic_econt_cfd = cyrillic_econt_cfd"
    by code_simp
  have h3: "list_ex (\<lambda>brand. find (homoglyph_hit brand)
                (re_split (normalized ascii_builtins (ustr ''ec0nt-pay.tk''))) =
              Some (ustr ''ec0nt'')) BRAND_KEYWORDS"
    by code_simp
  show ?thesis
    using homoglyph_first_hit [of "ustr ''ec0nt''" ascii_builtins "ustr ''ec0nt-pay.tk''"
        BRAND_KEYWORDS] h1 h2 h3
    by simp
qed

text \<open>
  As stated the property fails. The label \<open>b0ric\<close> has length 5, within 2 of the length
  of \<open>borica\<close>, contains a \<open>0\<close>, and its normal form \<open>boric\<close> has length 4 or more and
  occurs in \<open>borica\<close>; nothing is reported, because a label of ASCII characters is
  only compared for equality.
\<close>

theorem homoglyph_counterexample:
  "ustr ''borica'' \<in> set BRAND_KEYWORDS \<and>
   ustr ''b0ric'' \<in> set (re_split (strip_www (str_lower ascii_builtins (ustr ''b0ric.tk'')))) \<and>
   homoglyph_hit_claimed (ustr ''borica'') (ustr ''b0ric'') \<and>
   detect_homoglyphs ascii_builtins (ustr ''b0ric.tk'') BRAND_KEYWORDS = (False, [])"
  by code_simp

text \<open>A second label that passes the test for the same brand is not reported.\<close>

lemma homoglyph_second_label_dropped:
  "homoglyph_hit_claimed (ustr ''boxnow'') (ustr ''boxn0w'') \<and>
   detect_homoglyphs ascii_builtins (ustr ''b0xnow.boxn0w.tk'') BRAND_KEYWORDS =
     (True, [ustr ''b0xnow''])"
  by code_simp

subsection \<open>The admission filter\<close>

lemma whitelist_loop_list_ex:
  "whitelist_loop dl ws = list_ex (\<lambda>w. dl = w \<or> endswith dl (ustr ''.'' @ w)) ws"
  by (induction ws) auto

lemma is_whitelisted_form: "is_whitelisted B domain = whitelisted_form (normalized B domain)"
  by (simp add: is_whitelisted_def Let_def whitelist_loop_list_ex whitelisted_form_def
      normalized_def)

lemma score_domain_scored: "scored (score_domain B domain st) = scored st @ [domain]"
  by (simp add: score_domain_def Let_def split: prod.split)

lemma scan_loop_scored:
  "d \<in> set (scored (scan_loop B deadline_passed i candidates st)) \<Longrightarrow>
   d \<in> set (scored st) \<or> \<not> is_whitelisted B d"
proof (induction candidates arbitrary: i st)
  case Nil
  then show ?case by simp
next
  case (Cons candidate rest)
  let ?domain = "strip B candidate"
  let ?st = "st\<lparr> processed_domains := insert ?domain (processed_domains st) \<rparr>"
  from Cons.prems consider
      (stop) "d \<in> set (scored st)"
    | (skip) "d \<in> set (scored (scan_loop B deadline_passed (i + 1) rest st))"
    | (filtered) "d \<in> set (scored (scan_loop B deadline_passed (i + 1) rest ?st))"
    | (score) "\<not> is_whitelisted B ?domain"
        "d \<in> set (scored (scan_loop B deadline_passed (i + 1) rest (score_domain B ?domain ?st)))"
    by (auto simp add: Let_def split: if_splits)
  then show ?case
  proof cases
    case stop
    then show ?thesis by simp
  next
    case skip
    then show ?thesis using Cons.IH by blast
  next
    case filtered
    then have "d \<in> set (scored ?st) \<or> \<not> is_whitelisted B d" by (rule Cons.IH)
    then show ?thesis by simp
  next
    case score
    from score(2) have "d \<in> set (scored (score_domain B ?domain ?st)) \<or> \<not> is_whitelisted B d"
      by (rule Cons.IH)
    then show ?thesis using score(1) by (auto simp add: score_domain_scored)
  qed
qed

text \<open>
  C8: a domain whose lower-cased, \<open>www.\<close>-stripped form is a whitelist entry or a
  strict subdomain of one is rejected before scoring: \<open>is_whitelisted\<close> returns
  \<open>True\<close> for it, and it is never an argument of a call of \<open>calculate_score\<close> that
  \<open>scan_domains\<close> makes, whatever the candidates, their order, the feed file and the
  moment the duration runs out.
\<close>

theorem whitelisted_never_scored:
  assumes "whitelisted_form (normalized B d)"
  shows "is_whitelisted B d \<and>
         d \<notin> set (scored (scan_domains B deadline_passed all_domains feed_file))"
proof
  show w: "is_whitelisted B d" using assms by (simp add: is_whitelisted_form)
  show "d \<notin> set (scored (scan_domains B deadline_passed all_domains feed_file))"
  proof
    assume "d \<in> set (scored (scan_domains B deadline_passed all_domains feed_file))"
    then have "d \<in> set (scored \<lparr> processed_domains = {}, findings_count = 0,
                  feed = feed_file, scored = [] \<rparr>) \<or> \<not> is_whitelisted B d"
      unfolding scan_domains_def by (rule scan_loop_scored)
    then show False using w by simp
  qed
qed

text \<open>A run that scores one of three candidates.\<close>

lemma scan_example:
  "scored (scan_domains ascii_builtins (\<lambda>i. False)
      [ustr ''www.econt.bg'', ustr '' pay.speedy.bg '', ustr ''econt-bg.tk''] []) =
     [ustr ''econt-bg.tk'']"
  by code_simp

theorem whitelisted_never_scored_witness:
  "whitelisted_form (normalized ascii_builtins (ustr ''www.econt.bg'')) \<and>
   is_whitelisted ascii_builtins (ustr ''www.econt.bg'') \<and>
   ustr ''www.econt.bg'' \<notin> set (scored (scan_domains ascii_builtins (\<lambda>i. False)
      [ustr ''www.econt.bg'', ustr '' pay.speedy.bg '', ustr ''econt-bg.tk''] [])) \<and>
   scored (scan_domains ascii_builtins (\<lambda>i. False)
      [ustr ''www.econt.bg'', ustr '' pay.speedy.bg '', ustr ''econt-bg.tk''] []) =
     [ustr ''econt-bg.tk'']"
proof -
  have h: "whitelisted_form (normalized ascii_builtins (ustr ''www.econt.bg''))"
    by code_simp
  have "is_whitelisted ascii_builtins (ustr ''www.econt.bg'') \<and>
        ustr ''www.econt.bg'' \<notin> set (scored (scan_domains ascii_builtins (\<lambda>i. False)
          [ustr ''www.econt.bg'', ustr '' pay.speedy.bg '', ustr ''econt-bg.tk''] []))"
    by (rule whitelisted_never_scored [OF h])
  then show ?thesis using h scan_example by blast
qed

end
